theory Spec2Isabelle
  imports Main
begin

section \<open>Strings of the Go runtime\<close>

text \<open>
  A Go string is a sequence of bytes; it is modelled as a \<open>string\<close> (a list of 8-bit
  characters). The functions of package \<open>strings\<close>, \<open>fmt\<close> and \<open>path/filepath\<close> that
  \<open>backup.go\<close> calls are written out below on ASCII text, which is what the names, units
  and timestamps of this program consist of. Go lower-cases and trims by Unicode tables;
  bytes above 127 are left alone here.
\<close>

definition is_digit :: "char \<Rightarrow> bool" where
  "is_digit c = (c \<in> set ''0123456789'')"

text \<open>\<open>unicode.ToLower\<close> on the ASCII letters.\<close>

definition to_lower :: "char \<Rightarrow> char" where
  "to_lower c =
     (case map_of (zip ''ABCDEFGHIJKLMNOPQRSTUVWXYZ'' ''abcdefghijklmnopqrstuvwxyz'') c of
        Some l \<Rightarrow> l
      | None \<Rightarrow> c)"

definition ToLower :: "string \<Rightarrow> string" where
  "ToLower s = map to_lower s"

text \<open>\<open>strings.TrimSpace\<close>: the ASCII white space is tab, newline, vertical tab,
  form feed, carriage return and space.\<close>

definition is_space :: "char \<Rightarrow> bool" where
  "is_space c = (c \<in> {CHR 0x09, CHR 0x0A, CHR 0x0B, CHR 0x0C, CHR 0x0D, CHR '' ''})"

definition TrimSpace :: "string \<Rightarrow> string" where
  "TrimSpace s = rev (dropWhile is_space (rev (dropWhile is_space s)))"

text \<open>The class \<open>\s\<close> of Go's \<open>regexp\<close> (RE2 syntax) is \<open>[\t\n\f\r ]\<close>: no vertical tab.\<close>

definition is_re_space :: "char \<Rightarrow> bool" where
  "is_re_space c = (c \<in> {CHR 0x09, CHR 0x0A, CHR 0x0C, CHR 0x0D, CHR '' ''})"

section \<open>The size parser\<close>

datatype error =
    InvalidFormat string
  | InvalidNumber string
  | UnknownUnit string
  | SizeNotPositive
  | StatError string
  | OpenInputError string
  | CreateChunkError string
  | ReadInputError
  | SplitError error
  | OpenFileError string
  | UploadError string string
  | ListError string
  | IndexOutOfRange

text \<open>
  The regular expression of \<open>parseSizeString\<close> is
  \<^verbatim>\<open>^(\d+(?:\.\d+)?)\s*(b|kb|mb|gb|tb)$\<close>.
  Digits, the dot, white space and the letters of the units are pairwise disjoint
  classes and the expression is anchored at both ends, so a string has at most one
  match and it is found by reading left to right: a non-empty run of digits; then, if a
  dot follows, a non-empty run of digits after it (a dot followed by anything else can be
  matched neither by \<open>\s*\<close> nor by a unit, so there is no match); then a run of white
  space; then exactly one of the five units up to the end. \<open>size_re\<close> returns the two
  capture groups of \<open>FindStringSubmatch\<close>, or \<open>None\<close> where Go returns \<open>nil\<close>.
\<close>

definition units :: "string list" where
  "units = [''b'', ''kb'', ''mb'', ''gb'', ''tb'']"

definition size_re_unit :: "string \<Rightarrow> string \<Rightarrow> (string \<times> string) option" where
  "size_re_unit num rest =
     (let u = dropWhile is_re_space rest
      in if u \<in> set units then Some (num, u) else None)"

definition size_re :: "string \<Rightarrow> (string \<times> string) option" where
  "size_re s =
     (let ip = takeWhile is_digit s; r1 = dropWhile is_digit s
      in if ip = [] then None
         else (case r1 of
                 c # r2 \<Rightarrow>
                   if c = CHR ''.''
                   then (let fp = takeWhile is_digit r2; r3 = dropWhile is_digit r2
                         in if fp = [] then None
                            else size_re_unit (ip @ [CHR ''.''] @ fp) r3)
                   else size_re_unit ip r1
               | [] \<Rightarrow> size_re_unit ip r1))"

text \<open>
  \<open>strconv.ParseFloat\<close>, the \<open>float64\<close> product and the conversion \<open>int64(...)\<close> belong
  to the Go runtime, not to this repository; they are parameters of the model.
  \<open>int64_mul ops v m\<close> stands for \<open>int64(v * m)\<close> with \<open>m\<close> one of the five
  multipliers.
\<close>

record 'f float64_ops =
  ParseFloat :: "string \<Rightarrow> 'f option"
  int64_mul :: "'f \<Rightarrow> int \<Rightarrow> int"

definition parseSizeString :: "'f float64_ops \<Rightarrow> string \<Rightarrow> error + int" where
  "parseSizeString ops sizeStr0 =
     (let sizeStr = TrimSpace (ToLower sizeStr0)
      in case size_re sizeStr of
           None \<Rightarrow> Inl (InvalidFormat sizeStr)
         | Some (number, unit) \<Rightarrow>
             (case ParseFloat ops number of
                None \<Rightarrow> Inl (InvalidNumber number)
              | Some v \<Rightarrow>
                  (case (if unit = ''b'' then Some 1
                         else if unit = ''kb'' then Some 1024
                         else if unit = ''mb'' then Some (1024 * 1024)
                         else if unit = ''gb'' then Some (1024 * 1024 * 1024)
                         else if unit = ''tb'' then Some (1024 * 1024 * 1024 * 1024)
                         else None) of
                     None \<Rightarrow> Inl (UnknownUnit unit)
                   | Some multiplier \<Rightarrow>
                       (let result = int64_mul ops v multiplier
                        in if result \<le> 0 then Inl SizeNotPositive else Inr result))))"

text \<open>
  An instance of the parameters for evaluation: a decimal numeral \<open>d\<^sub>1\<dots>d\<^sub>n\<close> or
  \<open>d\<^sub>1\<dots>d\<^sub>n.e\<^sub>1\<dots>e\<^sub>k\<close> is kept exactly, as its digits read as one natural number
  together with \<open>k\<close>, and the product is truncated. This is what \<open>float64\<close> computes
  whenever the numeral and the product are integers below \<open>2^53\<close>, as for \<open>100\<close> and
  \<open>100 * 1024 * 1024\<close>; the rounding of other numerals is not modelled.
\<close>

definition digit_val :: "char \<Rightarrow> nat" where
  "digit_val c = of_char c - 48"

definition digits_val :: "string \<Rightarrow> nat" where
  "digits_val s = foldl (\<lambda>a c. 10 * a + digit_val c) 0 s"

definition decimal_ParseFloat :: "string \<Rightarrow> (nat \<times> nat) option" where
  "decimal_ParseFloat s =
     (let ip = takeWhile is_digit s; r = dropWhile is_digit s
      in if ip = [] then None
         else (case r of
                 [] \<Rightarrow> Some (digits_val ip, 0)
               | c # fp \<Rightarrow>
                   if c = CHR ''.'' \<and> fp \<noteq> [] \<and> list_all is_digit fp
                   then Some (digits_val (ip @ fp), length fp) else None))"

definition decimal_ops :: "(nat \<times> nat) float64_ops" where
  "decimal_ops =
     \<lparr> ParseFloat = decimal_ParseFloat,
       int64_mul = (\<lambda>(m, k) mult. (int m * mult) div 10 ^ k) \<rparr>"

text \<open>The number syntax of the first capture group.\<close>

definition is_number :: "string \<Rightarrow> bool" where
  "is_number s =
     (let ip = takeWhile is_digit s; r = dropWhile is_digit s
      in ip \<noteq> [] \<and> (r = [] \<or> (hd r = CHR ''.'' \<and> tl r \<noteq> [] \<and> list_all is_digit (tl r))))"

section \<open>Formatting and paths\<close>

text \<open>\<open>%d\<close> of a non-negative integer, and \<open>%03d\<close>: zero-padded on the left to a width of
  at least three.\<close>

fun itoa :: "nat \<Rightarrow> string" where
  "itoa n = (if n < 10 then [''0123456789'' ! n]
             else itoa (n div 10) @ [''0123456789'' ! (n mod 10)])"

declare itoa.simps [simp del]

definition pad3 :: "nat \<Rightarrow> string" where
  "pad3 n = replicate (3 - length (itoa n)) (CHR ''0'') @ itoa n"

text \<open>\<open>fmt.Sprintf("%s.part%03d", baseName, chunkNum)\<close>; \<open>chunkNum\<close> starts at 1 and only
  grows, so it is a natural number.\<close>

definition part_name :: "string \<Rightarrow> nat \<Rightarrow> string" where
  "part_name baseName chunkNum = baseName @ ''.part'' @ pad3 chunkNum"

text \<open>
  \<open>filepath.Join(dir, name)\<close> joins with a slash and cleans the result. On a directory
  that is already clean and is not the root, and a name that is one path element
  (no slash, neither \<open>.\<close> nor \<open>..\<close>), cleaning changes nothing. That is the case at the
  call of \<open>splitFile\<close>: the directory is the constant \<open>tmpDir\<close> and the name ends in
  \<open>.partNNN\<close>.
\<close>

definition filepath_Join :: "string \<Rightarrow> string \<Rightarrow> string" where
  "filepath_Join dir name = dir @ ''/'' @ name"

text \<open>\<open>filepath.Base\<close> on Unix: the empty path gives a dot, trailing slashes are
  stripped, the last element is what follows the last slash, and a path of slashes
  only gives one slash.\<close>

definition filepath_Base :: "string \<Rightarrow> string" where
  "filepath_Base path =
     (if path = [] then ''.''
      else (let stripped = rev (dropWhile (\<lambda>c. c = CHR ''/'') (rev path));
                elem = rev (takeWhile (\<lambda>c. c \<noteq> CHR ''/'') (rev stripped))
            in if elem = [] then ''/'' else elem))"

text \<open>\<open>filepath.Ext\<close>: scanning from the end up to the last slash, the suffix that
  starts at the first dot met; empty when there is none.\<close>

definition filepath_Ext :: "string \<Rightarrow> string" where
  "filepath_Ext path =
     (let r = rev path;
          t = takeWhile (\<lambda>c. c \<noteq> CHR ''/'' \<and> c \<noteq> CHR ''.'') r
      in case dropWhile (\<lambda>c. c \<noteq> CHR ''/'' \<and> c \<noteq> CHR ''.'') r of
           [] \<Rightarrow> []
         | c # _ \<Rightarrow> if c = CHR ''.'' then c # rev t else [])"

definition HasSuffix :: "string \<Rightarrow> string \<Rightarrow> bool" where
  "HasSuffix s suffix =
     (length suffix \<le> length s \<and> drop (length s - length suffix) s = suffix)"

definition TrimSuffix :: "string \<Rightarrow> string \<Rightarrow> string" where
  "TrimSuffix s suffix =
     (if HasSuffix s suffix then take (length s - length suffix) s else s)"

text \<open>\<open>strings.Index\<close>: the index of the first occurrence, or \<open>-1\<close>.\<close>

fun Index_from :: "nat \<Rightarrow> string \<Rightarrow> string \<Rightarrow> int" where
  "Index_from i [] substr = (if substr = [] then int i else - 1)"
| "Index_from i (c # cs) substr =
     (if take (length substr) (c # cs) = substr then int i
      else Index_from (Suc i) cs substr)"

definition Index :: "string \<Rightarrow> string \<Rightarrow> int" where
  "Index s substr = Index_from 0 s substr"

text \<open>The comparison \<open><\<close> of two Go strings: lexicographic on the bytes.\<close>

fun string_less :: "string \<Rightarrow> string \<Rightarrow> bool" where
  "string_less [] [] = False"
| "string_less [] (y # ys) = True"
| "string_less (x # xs) [] = False"
| "string_less (x # xs) (y # ys) =
     ((of_char x :: nat) < of_char y \<or> (x = y \<and> string_less xs ys))"

section \<open>The world the program runs in\<close>

text \<open>
  The Drive service is a value the program receives (\<open>srv *drive.Service\<close>); its three
  calls are parameters of the model, over a state \<open>'s\<close> of the remote side that the
  program cannot see. \<open>Files_Create\<close> takes the name, the parents, the bytes of the media
  and the chunk size when one was set, and answers with an error or the new identifier.
  \<open>Files_List\<close> takes the query and the drive identifier when one was set.
  \<open>Files_Delete\<close> takes an identifier and answers with an error or nothing.
\<close>

record drive_File =
  Id_of :: string
  Name :: string
  CreatedTime :: string
  Parents :: "string list"

record 's drive_Service =
  Files_Create :: "string \<Rightarrow> string list \<Rightarrow> string \<Rightarrow> int option \<Rightarrow> 's \<Rightarrow> (string + string) \<times> 's"
  Files_List :: "string \<Rightarrow> string option \<Rightarrow> 's \<Rightarrow> (string + drive_File list) \<times> 's"
  Files_Delete :: "string \<Rightarrow> 's \<Rightarrow> string option \<times> 's"

text \<open>Every call to the service is recorded, with its arguments and its answer.\<close>

datatype event =
    Created string "string list" string "int option" "string + string"
  | Listed string "string option"
  | Deleted string "string option"

text \<open>The lines of the log whose presence depends on a branch of the code; lines printed
  on every path are left out.\<close>

datatype log_line =
    WarnInvalidSplitSize string
  | WarnInvalidChunkSize string
  | SplitCreatedChunk nat string int
  | SplitSkippedEmptyChunk nat
  | UploadFailed string
  | UploadFinished string string
  | WarnRemoveChunk string
  | CleanupRemovedChunk string
  | UploadedChunks nat "string list"
  | RetentionCouldNotParse string
  | RetentionDeletingGroup string string
  | RetentionDeletingFile string
  | RetentionErrorDeleting string string

text \<open>
  The local file system maps a path to the bytes of the file there. \<open>create_denied\<close>
  and \<open>copy_fails\<close> say at which paths \<open>os.Create\<close> fails and at which paths a copy into
  the file fails with an error other than end of file. \<open>env\<close> is the environment
  (\<open>os.Getenv\<close> gives the empty string for an unset variable) and \<open>clock\<close> the reading of
  \<open>time.Now\<close>, in nanoseconds since the epoch.

  \<open>time_Local\<close> is the variable \<open>time.Local\<close>, which \<open>setTimezoneFromEnv\<close> sets from
  \<open>TZ\<close>: the zone of the times that \<open>time.Now\<close> returns. A zone is given by its
  \<open>lookup\<close>, which maps a time in seconds since the epoch to the offset from UTC in
  force then, in seconds, and to the first second and the end of the period, between two
  changes of the offset, that the time lies in.
\<close>

type_synonym location = "int \<Rightarrow> int \<times> int \<times> int"

record 's world =
  files :: "string \<rightharpoonup> string"
  create_denied :: "string \<Rightarrow> bool"
  copy_fails :: "string \<Rightarrow> bool"
  env :: "string \<Rightarrow> string"
  clock :: int
  time_Local :: location
  store :: 's
  trace :: "event list"
  logs :: "log_line list"

definition log_Printf :: "log_line \<Rightarrow> 's world \<Rightarrow> 's world" where
  "log_Printf l w = w\<lparr>logs := logs w @ [l]\<rparr>"

definition os_Getenv :: "'s world \<Rightarrow> string \<Rightarrow> string" where
  "os_Getenv w k = env w k"

text \<open>\<open>os.Stat\<close> and \<open>os.Open\<close> fail on a path with no file. An open file is modelled by
  the bytes that remain to be read, which is what the code reads as long as no file
  written meanwhile is the file being read.\<close>

definition os_Stat :: "'s world \<Rightarrow> string \<Rightarrow> int option" where
  "os_Stat w path = map_option (\<lambda>content. int (length content)) (files w path)"

definition os_Open :: "'s world \<Rightarrow> string \<Rightarrow> string option" where
  "os_Open w path = files w path"

definition os_Create :: "'s world \<Rightarrow> string \<Rightarrow> 's world option" where
  "os_Create w path =
     (if create_denied w path then None else Some (w\<lparr>files := (files w)(path \<mapsto> [])\<rparr>))"

text \<open>\<open>os.Remove\<close> fails on a path with no file; the boolean is \<open>err == nil\<close>.\<close>

definition os_Remove :: "'s world \<Rightarrow> string \<Rightarrow> bool \<times> 's world" where
  "os_Remove w path =
     (case files w path of
        None \<Rightarrow> (False, w)
      | Some _ \<Rightarrow> (True, w\<lparr>files := (files w)(path := None)\<rparr>))"

datatype io_error = NoError | EOF | IOFailure

text \<open>
  \<open>io.CopyN(output, input, n)\<close> copies \<open>n\<close> bytes or what is left. It returns the number
  of bytes written, and \<open>nil\<close> when that number is \<open>n\<close>, \<open>io.EOF\<close> when the input
  stopped early, or the error of the failing read or write. For \<open>n \<le> 0\<close> nothing is
  read or written and the error is \<open>nil\<close>. A copy that fails is taken to fail before
  its first byte (the caller removes the file and returns, whatever was written). The
  result also holds the input that remains.
\<close>

definition io_CopyN :: "'s world \<Rightarrow> string \<Rightarrow> string \<Rightarrow> int \<Rightarrow> int \<times> io_error \<times> string \<times> 's world" where
  "io_CopyN w output input n =
     (if copy_fails w output \<and> 0 < n then (0, IOFailure, input, w)
      else (let chunk = take (nat n) input;
                written = int (length chunk);
                w' = w\<lparr>files := (files w)(output \<mapsto> chunk)\<rparr>
            in (written, (if written < n then EOF else NoError), drop (nat n) input, w')))"

section \<open>The artifact partitioner\<close>

text \<open>
  The body of the \<open>for\<close> loop of \<open>splitFile\<close>. The loop has no bound of its own: it ends
  when a copy comes back short or an error is returned, so it is a partial function and
  \<open>None\<close> is the run that never ends.
\<close>

partial_function (option) split_loop ::
  "string \<Rightarrow> string \<Rightarrow> int \<Rightarrow> string \<Rightarrow> nat \<Rightarrow> string list \<Rightarrow> 's world
   \<Rightarrow> ((error + string list) \<times> 's world) option" where
  "split_loop outputDir baseName splitSize input chunkNum chunkFiles w =
     (let chunkPath = filepath_Join outputDir (part_name baseName chunkNum)
      in case os_Create w chunkPath of
           None \<Rightarrow> Some (Inl (CreateChunkError chunkPath), w)
         | Some w1 \<Rightarrow>
             (case io_CopyN w1 chunkPath input splitSize of
                (bytesWritten, err, input', w2) \<Rightarrow>
                  if err = IOFailure
                  then Some (Inl ReadInputError, snd (os_Remove w2 chunkPath))
                  else (let (chunkFiles', w3) =
                              (if bytesWritten > 0
                               then (chunkFiles @ [chunkPath],
                                     log_Printf (SplitCreatedChunk chunkNum chunkPath bytesWritten) w2)
                               else (chunkFiles,
                                     log_Printf (SplitSkippedEmptyChunk chunkNum)
                                       (snd (os_Remove w2 chunkPath))))
                        in if bytesWritten < splitSize then Some (Inr chunkFiles', w3)
                           else split_loop outputDir baseName splitSize input'
                                  (chunkNum + 1) chunkFiles' w3)))"

declare split_loop.simps [code]

definition splitFile ::
  "'s world \<Rightarrow> string \<Rightarrow> string \<Rightarrow> string \<Rightarrow> int \<Rightarrow> ((error + string list) \<times> 's world) option" where
  "splitFile w inputPath outputDir baseName splitSize =
     (case os_Open w inputPath of
        None \<Rightarrow> Some (Inl (OpenInputError inputPath), w)
      | Some input \<Rightarrow> split_loop outputDir baseName splitSize input 1 [] w)"

text \<open>The path of part \<open>n\<close>, as the loop computes it.\<close>

definition chunk_path :: "string \<Rightarrow> string \<Rightarrow> nat \<Rightarrow> string" where
  "chunk_path outputDir baseName n = filepath_Join outputDir (part_name baseName n)"

text \<open>The number of parts of \<open>len\<close> bytes cut every \<open>c\<close> bytes: \<open>len / c\<close> rounded up.\<close>

definition parts_count :: "nat \<Rightarrow> nat \<Rightarrow> nat" where
  "parts_count len c = (len + c - 1) div c"

section \<open>The upload coordinator\<close>

definition tmpDir :: string where
  "tmpDir = ''/app/backup/tmp''"

text \<open>A size read from the environment: zero when the variable is unset or does not
  parse (the two reads of \<open>uploadToDrive\<close> differ only in the warning they print).\<close>

definition env_size :: "'f float64_ops \<Rightarrow> string \<Rightarrow> (string \<Rightarrow> log_line) \<Rightarrow> 's world \<Rightarrow> int \<times> 's world" where
  "env_size ops var warn w =
     (let str = os_Getenv w var
      in if str \<noteq> []
         then (case parseSizeString ops str of
                 Inl err \<Rightarrow> (0, log_Printf (warn str) w)
               | Inr parsed \<Rightarrow> (parsed, w))
         else (0, w))"

text \<open>The first half of \<open>uploadToDrive\<close>: the files to upload and the names they are
  uploaded under.\<close>

definition upload_plan ::
  "'f float64_ops \<Rightarrow> string \<Rightarrow> string \<Rightarrow> 's world
   \<Rightarrow> ((error + string list \<times> string list) \<times> 's world) option" where
  "upload_plan ops filePath fileName w0 =
     (let (splitSize, w) = env_size ops ''UPLOAD_SPLIT_SIZE'' WarnInvalidSplitSize w0
      in case os_Stat w filePath of
           None \<Rightarrow> Some (Inl (StatError filePath), w)
         | Some fileSize \<Rightarrow>
             if splitSize > 0 \<and> fileSize > splitSize
             then (let baseName = TrimSuffix fileName (filepath_Ext fileName)
                   in case splitFile w filePath tmpDir baseName splitSize of
                        None \<Rightarrow> None
                      | Some (Inl err, w1) \<Rightarrow> Some (Inl (SplitError err), w1)
                      | Some (Inr chunkFiles, w1) \<Rightarrow>
                          Some (Inr (chunkFiles, map filepath_Base chunkFiles), w1))
             else Some (Inr ([filePath], [fileName]), w))"

text \<open>
  The upload loop, \<open>for i, uploadPath := range filesToUpload\<close>: \<open>count\<close> is
  \<open>len(filesToUpload)\<close>, the list argument holds the paths from index \<open>i\<close> on, and
  \<open>uploadedFileIDs\<close> the identifiers so far. \<open>fileNames[i]\<close> panics out of range.
\<close>

fun upload_loop ::
  "'s drive_Service \<Rightarrow> 'f float64_ops \<Rightarrow> string \<Rightarrow> nat \<Rightarrow> string list \<Rightarrow> nat \<Rightarrow> string list
   \<Rightarrow> string list \<Rightarrow> 's world \<Rightarrow> (error + string list) \<times> 's world" where
  "upload_loop srv ops parentID count fileNames i [] uploadedFileIDs w = (Inr uploadedFileIDs, w)"
| "upload_loop srv ops parentID count fileNames i (uploadPath # rest) uploadedFileIDs w =
     (if length fileNames \<le> i then (Inl IndexOutOfRange, w)
      else (let uploadName = fileNames ! i
            in case os_Open w uploadPath of
                 None \<Rightarrow> (Inl (OpenFileError uploadPath), w)
               | Some f \<Rightarrow>
                   (let parents = (if parentID \<noteq> [] then [parentID] else [''root'']);
                        (chunkSize, w1) = env_size ops ''UPLOAD_CHUNK_SIZE'' WarnInvalidChunkSize w;
                        media = (if chunkSize > 0 then Some chunkSize else None);
                        (created, st) = Files_Create srv uploadName parents f media (store w1);
                        w2 = w1\<lparr>store := st,
                                 trace := trace w1 @ [Created uploadName parents f media created]\<rparr>
                    in case created of
                         Inl err \<Rightarrow> (Inl (UploadError uploadName err), log_Printf (UploadFailed err) w2)
                       | Inr new_id \<Rightarrow>
                           (let w3 = log_Printf (UploadFinished uploadName new_id) w2;
                                w4 = (if count > 1
                                      then (case os_Remove w3 uploadPath of
                                              (False, w') \<Rightarrow> log_Printf (WarnRemoveChunk uploadPath) w'
                                            | (True, w') \<Rightarrow> log_Printf (CleanupRemovedChunk uploadPath) w')
                                      else w3)
                            in upload_loop srv ops parentID count fileNames (Suc i) rest
                                 (uploadedFileIDs @ [new_id]) w4))))"

text \<open>\<open>uploadToDrive\<close> returns one string: \<open>uploadedFileIDs[0]\<close> on both of its last
  paths. Indexing an empty slice panics.\<close>

definition uploadToDrive ::
  "'s drive_Service \<Rightarrow> 'f float64_ops \<Rightarrow> string \<Rightarrow> string \<Rightarrow> string \<Rightarrow> 's world
   \<Rightarrow> ((error + string) \<times> 's world) option" where
  "uploadToDrive srv ops filePath fileName parentID w =
     (case upload_plan ops filePath fileName w of
        None \<Rightarrow> None
      | Some (Inl err, w1) \<Rightarrow> Some (Inl err, w1)
      | Some (Inr (filesToUpload, fileNames), w1) \<Rightarrow>
          (case upload_loop srv ops parentID (length filesToUpload) fileNames 0 filesToUpload [] w1 of
             (Inl err, w2) \<Rightarrow> Some (Inl err, w2)
           | (Inr uploadedFileIDs, w2) \<Rightarrow>
               if length uploadedFileIDs = 1 then Some (Inr (uploadedFileIDs ! 0), w2)
               else (let w3 = log_Printf (UploadedChunks (length uploadedFileIDs) uploadedFileIDs) w2
                     in case uploadedFileIDs of
                          [] \<Rightarrow> Some (Inl IndexOutOfRange, w3)
                        | first_id # _ \<Rightarrow> Some (Inr first_id, w3))))"

section \<open>The retention sweeper\<close>

record fileInfo =
  fi_id :: string
  fi_name :: string
  fi_created :: string

text \<open>The group key of a name: everything before the first \<open>.tar.gz\<close>, else everything
  before the first \<open>.tar.part\<close>, else the whole name.\<close>

definition group_prefix :: "string \<Rightarrow> string" where
  "group_prefix name =
     (let idx = Index name ''.tar.gz''
      in if idx \<noteq> - 1 then take (nat idx) name
         else (let idx = Index name ''.tar.part''
               in if idx \<noteq> - 1 then take (nat idx) name else name))"

text \<open>
  \<open>backupGroups\<close> is a Go map from the key to the slice of members. It is kept as a list
  of entries with distinct keys; \<open>backupGroups[prefix] = append(backupGroups[prefix], v)\<close>
  extends the entry of the key or adds one.
\<close>

fun map_append :: "(string \<times> fileInfo list) list \<Rightarrow> string \<Rightarrow> fileInfo \<Rightarrow> (string \<times> fileInfo list) list" where
  "map_append [] k v = [(k, [v])]"
| "map_append ((k', g) # m) k v =
     (if k' = k then (k', g @ [v]) # m else (k', g) # map_append m k v)"

fun group_files :: "drive_File list \<Rightarrow> (string \<times> fileInfo list) list \<Rightarrow> (string \<times> fileInfo list) list" where
  "group_files [] backupGroups = backupGroups"
| "group_files (f # fs) backupGroups =
     group_files fs
       (map_append backupGroups (group_prefix (Name f))
          \<lparr>fi_id = Id_of f, fi_name = Name f, fi_created = CreatedTime f\<rparr>)"

text \<open>The loop that picks \<open>earliest\<close>: it starts at \<open>group[0]\<close> and moves to a member
  whenever that member's \<open>created\<close> string is smaller.\<close>

definition earliest_of :: "fileInfo \<Rightarrow> fileInfo list \<Rightarrow> fileInfo" where
  "earliest_of first members =
     foldl (\<lambda>earliest fi. if string_less (fi_created fi) (fi_created earliest) then fi else earliest)
       first members"

fun delete_members :: "'s drive_Service \<Rightarrow> fileInfo list \<Rightarrow> 's world \<Rightarrow> 's world" where
  "delete_members srv [] w = w"
| "delete_members srv (fi # members) w =
     (let w1 = log_Printf (RetentionDeletingFile (fi_name fi)) w;
          (err, st) = Files_Delete srv (fi_id fi) (store w1);
          w2 = w1\<lparr>store := st, trace := trace w1 @ [Deleted (fi_id fi) err]\<rparr>;
          w3 = (case err of
                  Some e \<Rightarrow> log_Printf (RetentionErrorDeleting (fi_name fi) e) w2
                | None \<Rightarrow> w2)
      in delete_members srv members w3)"

text \<open>
  One round of the loop over the groups. \<open>time.Parse(time.RFC3339, ...)\<close> belongs to the
  Go runtime and is a parameter: it gives the instant in nanoseconds since the epoch, or
  \<open>None\<close> for an error.
\<close>

definition sweep_group ::
  "'s drive_Service \<Rightarrow> (string \<Rightarrow> int option) \<Rightarrow> int \<Rightarrow> int \<Rightarrow> string \<times> fileInfo list
   \<Rightarrow> 's world \<Rightarrow> 's world" where
  "sweep_group srv time_Parse cutoff retentionDays entry w =
     (case entry of
        (prefix, []) \<Rightarrow> w
      | (prefix, first # others) \<Rightarrow>
          (let members = first # others;
               earliest = earliest_of first members
           in case time_Parse (fi_created earliest) of
                None \<Rightarrow> log_Printf (RetentionCouldNotParse prefix) w
              | Some created \<Rightarrow>
                  if retentionDays = 0 \<or> created < cutoff
                  then delete_members srv members
                         (log_Printf (RetentionDeletingGroup prefix (fi_created earliest)) w)
                  else w))"

fun sweep_groups ::
  "'s drive_Service \<Rightarrow> (string \<Rightarrow> int option) \<Rightarrow> int \<Rightarrow> int \<Rightarrow> (string \<times> fileInfo list) list
   \<Rightarrow> 's world \<Rightarrow> 's world" where
  "sweep_groups srv time_Parse cutoff retentionDays [] w = w"
| "sweep_groups srv time_Parse cutoff retentionDays (entry # entries) w =
     sweep_groups srv time_Parse cutoff retentionDays entries
       (sweep_group srv time_Parse cutoff retentionDays entry w)"

text \<open>
  \<open>t.AddDate(0, 0, days)\<close> is \<open>Date(year, month, day + days, hour, min, sec, nsec, loc)\<close>
  on the date and the clock that \<open>t\<close> shows in its zone. \<open>Date\<close> counts the seconds of
  that date and clock as if they were read in UTC, which moves the reading of \<open>t\<close> by
  \<open>days\<close> times 86400 seconds; it then looks up the offset of the zone at that count,
  looks it up again at the count less the offset when that falls outside the period of
  the first answer, and subtracts the offset. In a zone that changes its offset the
  result is not always \<open>days\<close> times 24 hours away from \<open>t\<close>.
\<close>

definition day_ns :: int where
  "day_ns = 86400 * 1000000000"

definition AddDate_days :: "location \<Rightarrow> int \<Rightarrow> int \<Rightarrow> int" where
  "AddDate_days lookup t days =
     (let sec = t div 1000000000;
          nsec = t mod 1000000000;
          unix = sec + fst (lookup sec) + days * 86400;
          (offset, zone_start, zone_end) = lookup unix;
          utc = unix - offset;
          offset' = (if offset \<noteq> 0 \<and> (utc < zone_start \<or> zone_end \<le> utc)
                     then fst (lookup utc) else offset)
      in (unix - offset') * 1000000000 + nsec)"

definition retention_query :: string where
  "retention_query =
     ''(name contains '' @ [CHR 0x27] @ ''.tar.gz'' @ [CHR 0x27] @ '' or name contains ''
       @ [CHR 0x27] @ ''.part'' @ [CHR 0x27] @ '') and trashed = false''"

text \<open>
  The order in which \<open>range\<close> visits a Go map is not specified. \<open>map_range\<close> is the
  order of one run: a parameter that rearranges the entries.
\<close>

definition cleanupOldBackups ::
  "'s drive_Service \<Rightarrow> (string \<Rightarrow> int option)
   \<Rightarrow> ((string \<times> fileInfo list) list \<Rightarrow> (string \<times> fileInfo list) list)
   \<Rightarrow> string \<Rightarrow> int \<Rightarrow> 's world \<Rightarrow> (error + unit) \<times> 's world" where
  "cleanupOldBackups srv time_Parse map_range parentID retentionDays w =
     (let cutoff = AddDate_days (time_Local w) (clock w) (- retentionDays);
          driveId = (if parentID \<noteq> [] \<and> parentID \<noteq> ''root'' then Some parentID else None);
          (listed, st) = Files_List srv retention_query driveId (store w);
          w1 = w\<lparr>store := st, trace := trace w @ [Listed retention_query driveId]\<rparr>
      in case listed of
           Inl err \<Rightarrow> (Inl (ListError err), w1)
         | Inr fs \<Rightarrow>
             (let backupGroups = group_files fs []
              in (Inr (), sweep_groups srv time_Parse cutoff retentionDays
                            (map_range backupGroups) w1)))"

text \<open>
  Names for what one round of the loop computes: the creation time of a group is the
  parse of the \<open>created\<close> string of \<open>earliest\<close>, and a group is deleted when that parse
  succeeds and the test of the \<open>if\<close> holds.
\<close>

definition group_time :: "(string \<Rightarrow> int option) \<Rightarrow> fileInfo list \<Rightarrow> int option" where
  "group_time time_Parse members =
     (case members of
        [] \<Rightarrow> None
      | first # others \<Rightarrow> time_Parse (fi_created (earliest_of first members)))"

definition eligible :: "(string \<Rightarrow> int option) \<Rightarrow> int \<Rightarrow> int \<Rightarrow> fileInfo list \<Rightarrow> bool" where
  "eligible time_Parse cutoff retentionDays members =
     (case group_time time_Parse members of
        None \<Rightarrow> False
      | Some created \<Rightarrow> retentionDays = 0 \<or> created < cutoff)"

text \<open>The identifiers of the members of all groups, and of the members of the groups
  that are deleted, in the order of the entries.\<close>

definition member_ids :: "(string \<times> fileInfo list) list \<Rightarrow> string list" where
  "member_ids entries = concat (map (\<lambda>(k, g). map fi_id g) entries)"

definition elig_ids :: "(string \<Rightarrow> int option) \<Rightarrow> int \<Rightarrow> int \<Rightarrow> (string \<times> fileInfo list) list \<Rightarrow> string list" where
  "elig_ids tp cutoff rd entries =
     concat (map (\<lambda>(k, g). if eligible tp cutoff rd g then map fi_id g else []) entries)"

section \<open>Reading the record of service calls\<close>

definition created_names :: "event list \<Rightarrow> string list" where
  "created_names es = concat (map (\<lambda>e. case e of Created n _ _ _ _ \<Rightarrow> [n] | _ \<Rightarrow> []) es)"

definition created_ids :: "event list \<Rightarrow> string list" where
  "created_ids es = concat (map (\<lambda>e. case e of Created _ _ _ _ (Inr i) \<Rightarrow> [i] | _ \<Rightarrow> []) es)"

definition failed_creates :: "event list \<Rightarrow> (string \<times> string) list" where
  "failed_creates es =
     concat (map (\<lambda>e. case e of Created n _ _ _ (Inl err) \<Rightarrow> [(n, err)] | _ \<Rightarrow> []) es)"

definition deleted_ids :: "event list \<Rightarrow> string list" where
  "deleted_ids es = concat (map (\<lambda>e. case e of Deleted i _ \<Rightarrow> [i] | _ \<Rightarrow> []) es)"

definition failed_deletes :: "event list \<Rightarrow> string list" where
  "failed_deletes es = concat (map (\<lambda>e. case e of Deleted i (Some _) \<Rightarrow> [i] | _ \<Rightarrow> []) es)"

text \<open>The calls made between two worlds of one run.\<close>

definition new_events :: "'s world \<Rightarrow> 's world \<Rightarrow> event list" where
  "new_events w w' = drop (length (trace w)) (trace w')"

section \<open>Instances for evaluation\<close>

text \<open>
  A Drive kept in memory: it numbers the files it creates, refuses to create the names
  in \<open>refuse_create\<close> and to delete the identifiers in \<open>refuse_delete\<close>, stamps every
  new file with \<open>stamp\<close>, and lists all its files whatever the query.
\<close>

record mem_drive =
  objects :: "drive_File list"
  counter :: nat
  stamp :: string
  refuse_create :: "string list"
  refuse_delete :: "string list"

definition mem_srv :: "mem_drive drive_Service" where
  "mem_srv =
     \<lparr> Files_Create = (\<lambda>name parents media chunk st.
          if name \<in> set (refuse_create st) then (Inl ''quota exceeded'', st)
          else (let new_id = ''id'' @ itoa (counter st)
                in (Inr new_id,
                    st\<lparr>objects := objects st @
                          [\<lparr>Id_of = new_id, Name = name, CreatedTime = stamp st, Parents = parents\<rparr>],
                       counter := Suc (counter st)\<rparr>))),
       Files_List = (\<lambda>q driveId st. (Inr (objects st), st)),
       Files_Delete = (\<lambda>file_id st.
          if file_id \<in> set (refuse_delete st) then (Some ''forbidden'', st)
          else (None, st\<lparr>objects := filter (\<lambda>f. Id_of f \<noteq> file_id) (objects st)\<rparr>)) \<rparr>"

text \<open>A remote file under the root, a Drive that holds some files, and a world with
  that Drive, the clock at \<open>now\<close>, the zone UTC, no local file and an empty environment.
  The lookup of UTC answers with the offset 0 and one period that holds every time.\<close>

definition utc_location :: location where
  "utc_location sec = (0, - 9223372036854775808, 9223372036854775807)"

definition remote_file :: "string \<Rightarrow> string \<Rightarrow> string \<Rightarrow> drive_File" where
  "remote_file file_id name created =
     \<lparr>Id_of = file_id, Name = name, CreatedTime = created, Parents = [''root'']\<rparr>"

definition drive_with :: "drive_File list \<Rightarrow> string list \<Rightarrow> mem_drive" where
  "drive_with fs refused =
     \<lparr>objects = fs, counter = 0, stamp = [], refuse_create = [], refuse_delete = refused\<rparr>"

definition sweep_world :: "drive_File list \<Rightarrow> string list \<Rightarrow> int \<Rightarrow> mem_drive world" where
  "sweep_world fs refused now =
     \<lparr>files = Map.empty, create_denied = (\<lambda>p. False), copy_fails = (\<lambda>p. False),
      env = (\<lambda>k. []), clock = now, time_Local = utc_location,
      store = drive_with fs refused, trace = [], logs = []\<rparr>"

definition member :: "string \<Rightarrow> string \<Rightarrow> string \<Rightarrow> fileInfo" where
  "member file_id name created = \<lparr>fi_id = file_id, fi_name = name, fi_created = created\<rparr>"

text \<open>Three listings: a split backup of January and a whole one of February; a backup
  whose creation time is not a timestamp; and a split backup whose two parts carry
  timestamps of different zone offsets.\<close>

definition demo_listing :: "drive_File list" where
  "demo_listing =
     [remote_file ''a'' ''v_2025-01-10T08:00:00Z.tar.part001'' ''2025-01-10T08:00:00Z'',
      remote_file ''b'' ''v_2025-01-10T08:00:00Z.tar.part002'' ''2025-01-10T08:00:05Z'',
      remote_file ''c'' ''w_2025-02-20T08:00:00Z.tar.gz'' ''2025-02-20T08:00:00Z'']"

definition unparsed_listing :: "drive_File list" where
  "unparsed_listing =
     [remote_file ''x'' ''u_2025-01-10T08:00:00Z.tar.gz'' ''yesterday'',
      remote_file ''c'' ''w_2025-02-20T08:00:00Z.tar.gz'' ''2025-02-20T08:00:00Z'']"

definition zones_listing :: "drive_File list" where
  "zones_listing =
     [remote_file ''a'' ''v_2025-01-01T00:00:00Z.tar.part001'' ''2025-01-01T10:00:00+09:00'',
      remote_file ''b'' ''v_2025-01-01T00:00:00Z.tar.part002'' ''2025-01-01T02:00:00Z'']"

text \<open>
  A zone with the offsets of Berlin in 2025: one hour east of UTC, two hours from
  2025-03-30T01:00:00Z to 2025-10-26T01:00:00Z. A world in a given zone. A listing of
  the spring of 2025, read on 2025-04-15T10:00:00Z: a split backup made 31 days
  before, a backup made 29 days before, and one made 30 days less half an hour before.
\<close>

definition berlin_2025 :: location where
  "berlin_2025 sec =
     (if sec < 1743296400 then (3600, - 9223372036854775808, 1743296400)
      else if sec < 1761440400 then (7200, 1743296400, 1761440400)
      else (3600, 1761440400, 9223372036854775807))"

definition zoned_world :: "location \<Rightarrow> drive_File list \<Rightarrow> string list \<Rightarrow> int \<Rightarrow> mem_drive world" where
  "zoned_world loc fs refused now = (sweep_world fs refused now)\<lparr>time_Local := loc\<rparr>"

definition spring_listing :: "drive_File list" where
  "spring_listing =
     [remote_file ''a'' ''v_2025-03-15T11:00:00+01:00.tar.part001'' ''2025-03-15T10:00:00.000Z'',
      remote_file ''b'' ''v_2025-03-15T11:00:00+01:00.tar.part002'' ''2025-03-15T10:00:05.000Z'',
      remote_file ''c'' ''w_2025-03-17T11:00:00+01:00.tar.gz'' ''2025-03-17T10:00:00.000Z'',
      remote_file ''d'' ''x_2025-03-16T11:30:00+01:00.tar.gz'' ''2025-03-16T10:30:00.000Z'']"

definition spring_world :: "mem_drive world" where
  "spring_world = zoned_world berlin_2025 spring_listing [] 1744711200000000000"

text \<open>A world for an upload: the archive \<open>v_2025-01-01T00:00:00Z.tar.gz\<close> in the
  temporary directory with the given bytes, the given \<open>UPLOAD_SPLIT_SIZE\<close>, and a Drive
  that refuses to create the given names.\<close>

definition archive_name :: string where
  "archive_name = ''v_2025-01-01T00:00:00Z.tar.gz''"

definition archive_path :: string where
  "archive_path = ''/app/backup/tmp/v_2025-01-01T00:00:00Z.tar.gz''"

definition upload_world :: "string \<Rightarrow> string \<Rightarrow> string list \<Rightarrow> mem_drive world" where
  "upload_world content splitSize refused =
     \<lparr>files = [archive_path \<mapsto> content],
      create_denied = (\<lambda>p. False), copy_fails = (\<lambda>p. False),
      env = (\<lambda>k. if k = ''UPLOAD_SPLIT_SIZE'' then splitSize else []),
      clock = 0, time_Local = utc_location,
      store = \<lparr>objects = [], counter = 0, stamp = ''2025-01-01T00:00:05Z'',
               refuse_create = refused, refuse_delete = []\<rparr>,
      trace = [], logs = []\<rparr>"

text \<open>
  A reader of RFC 3339 timestamps of the shape \<open>YYYY-MM-DDTHH:MM:SS\<close>, an optional
  fraction, and \<open>Z\<close> or an offset \<open>+HH:MM\<close> or \<open>-HH:MM\<close>, giving nanoseconds since
  1970-01-01T00:00:00Z.
\<close>

definition days_from_civil :: "int \<Rightarrow> int \<Rightarrow> int \<Rightarrow> int" where
  "days_from_civil y m d =
     (let y' = (if m \<le> 2 then y - 1 else y);
          era = y' div 400;
          yoe = y' - era * 400;
          doy = (153 * (if m > 2 then m - 3 else m + 9) + 2) div 5 + d - 1;
          doe = yoe * 365 + yoe div 4 - yoe div 100 + doy
      in era * 146097 + doe - 719468)"

definition days_in_month :: "int \<Rightarrow> int \<Rightarrow> int" where
  "days_in_month y m =
     (if m = 2 then (if y mod 4 = 0 \<and> (y mod 100 \<noteq> 0 \<or> y mod 400 = 0) then 29 else 28)
      else if m \<in> {4, 6, 9, 11} then 30 else 31)"

definition num_at :: "string \<Rightarrow> nat \<Rightarrow> nat \<Rightarrow> int option" where
  "num_at s i n =
     (let d = take n (drop i s)
      in if length d = n \<and> list_all is_digit d then Some (int (digits_val d)) else None)"

definition rfc3339_zone :: "string \<Rightarrow> int option" where
  "rfc3339_zone z =
     (if z = ''Z'' then Some 0
      else if length z = 6 \<and> take 1 z \<in> {''+'', ''-''} \<and> take 1 (drop 3 z) = '':''
      then (case (num_at z 1 2, num_at z 4 2) of
              (Some h, Some m) \<Rightarrow>
                if h < 24 \<and> m < 60
                then Some ((if take 1 z = ''-'' then - 1 else 1) * (h * 3600 + m * 60))
                else None
            | _ \<Rightarrow> None)
      else None)"

definition rfc3339_tail :: "string \<Rightarrow> (int \<times> int) option" where
  "rfc3339_tail rest =
     (if take 1 rest = ''.''
      then (let frac = takeWhile is_digit (drop 1 rest)
            in if frac = [] then None
               else map_option (\<lambda>off. (int (digits_val (take 9 (frac @ replicate 9 (CHR ''0'')))), off))
                      (rfc3339_zone (dropWhile is_digit (drop 1 rest))))
      else map_option (\<lambda>off. (0, off)) (rfc3339_zone rest))"

definition rfc3339 :: "string \<Rightarrow> int option" where
  "rfc3339 s =
     (case (num_at s 0 4, num_at s 5 2, num_at s 8 2, num_at s 11 2, num_at s 14 2, num_at s 17 2,
            rfc3339_tail (drop 19 s)) of
        (Some y, Some mo, Some d, Some h, Some mi, Some sec, Some (ns, off)) \<Rightarrow>
          if take 1 (drop 4 s) = ''-'' \<and> take 1 (drop 7 s) = ''-'' \<and> take 1 (drop 10 s) = ''T''
             \<and> take 1 (drop 13 s) = '':'' \<and> take 1 (drop 16 s) = '':''
             \<and> 1 \<le> mo \<and> mo \<le> 12 \<and> 1 \<le> d \<and> d \<le> days_in_month y mo
             \<and> h < 24 \<and> mi < 60 \<and> sec < 60
          then Some ((days_from_civil y mo d * 86400 + h * 3600 + mi * 60 + sec - off) * 1000000000 + ns)
          else None
      | _ \<Rightarrow> None)"

section \<open>Properties of the size parser\<close>

lemma to_lower_digit: "is_digit c \<Longrightarrow> to_lower c = c"
proof -
  have "\<forall>c \<in> set ''0123456789''. to_lower c = c"
    by (simp add: to_lower_def)
  then show "is_digit c \<Longrightarrow> to_lower c = c"
    unfolding is_digit_def by blast
qed

lemma to_lower_re_space: "is_re_space c \<Longrightarrow> to_lower c = c"
proof -
  have "\<forall>c \<in> {CHR 0x09, CHR 0x0A, CHR 0x0C, CHR 0x0D, CHR '' ''}. to_lower c = c"
    by (simp add: to_lower_def)
  then show "is_re_space c \<Longrightarrow> to_lower c = c"
    unfolding is_re_space_def by blast
qed

lemma to_lower_dot: "to_lower (CHR ''.'') = CHR ''.''"
  by (simp add: to_lower_def)

lemma TrimSpace_id: "s \<noteq> [] \<Longrightarrow> \<not> is_space (hd s) \<Longrightarrow> \<not> is_space (last s) \<Longrightarrow> TrimSpace s = s"
proof -
  assume s: "s \<noteq> []" and h: "\<not> is_space (hd s)" and l: "\<not> is_space (last s)"
  have a: "dropWhile is_space s = s" using s h by (cases s) auto
  have "hd (rev s) = last s" using s by (simp add: hd_rev)
  moreover obtain x xs where r: "rev s = x # xs" using s by (cases "rev s") auto
  ultimately have b: "dropWhile is_space (rev s) = rev s" using l unfolding r by simp
  show ?thesis by (simp add: TrimSpace_def a b)
qed

lemma unit_props:
  "u \<in> set units \<Longrightarrow> u \<noteq> [] \<and> \<not> is_digit (hd u) \<and> hd u \<noteq> CHR ''.'' \<and> \<not> is_re_space (hd u) \<and> \<not> is_space (last u)"
  by (auto simp: units_def is_digit_def is_re_space_def is_space_def)

lemma size_re_unit_ok:
  assumes "list_all is_re_space ws" "u \<in> set units"
  shows "size_re_unit num (ws @ u) = Some (num, u)"
proof -
  from unit_props[OF assms(2)] obtain c cs where u: "u = c # cs" and c: "\<not> is_re_space c"
    by (cases u) auto
  have "dropWhile is_re_space (ws @ u) = u"
    using assms(1) c by (simp add: u list_all_iff dropWhile_append2)
  then show ?thesis using assms(2) by (simp add: size_re_unit_def)
qed

lemma size_re_digits:
  assumes "ip \<noteq> []" "list_all is_digit ip" "rest = c # cs" "\<not> is_digit c" "c \<noteq> CHR ''.''"
  shows "size_re (ip @ rest) = size_re_unit ip rest"
proof -
  have t: "takeWhile is_digit (ip @ rest) = ip" and d: "dropWhile is_digit (ip @ rest) = rest"
    using assms by (simp_all add: list_all_iff takeWhile_append2 dropWhile_append2)
  show ?thesis unfolding size_re_def t d using assms by (simp)
qed

lemma size_re_frac:
  assumes "ip \<noteq> []" "list_all is_digit ip" "fp \<noteq> []" "list_all is_digit fp"
    "rest = c # cs" "\<not> is_digit c"
  shows "size_re (ip @ CHR ''.'' # fp @ rest) = size_re_unit (ip @ CHR ''.'' # fp) rest"
proof -
  have nd: "\<not> is_digit (CHR ''.'')" by (simp add: is_digit_def)
  have t: "takeWhile is_digit (ip @ CHR ''.'' # fp @ rest) = ip"
    and d: "dropWhile is_digit (ip @ CHR ''.'' # fp @ rest) = CHR ''.'' # fp @ rest"
    using assms nd by (simp_all add: list_all_iff takeWhile_append2 dropWhile_append2)
  have t2: "takeWhile is_digit (fp @ rest) = fp" and d2: "dropWhile is_digit (fp @ rest) = rest"
    using assms by (simp_all add: list_all_iff takeWhile_append2 dropWhile_append2)
  show ?thesis unfolding size_re_def t d Let_def list.case t2 d2 using assms(1,3) by simp
qed

lemma is_number_cases:
  assumes "is_number num"
  obtains (int) "num \<noteq> []" "list_all is_digit num"
  | (frac) ip fp where "num = ip @ CHR ''.'' # fp" "ip \<noteq> []" "list_all is_digit ip"
      "fp \<noteq> []" "list_all is_digit fp"
proof -
  let ?ip = "takeWhile is_digit num" and ?r = "dropWhile is_digit num"
  have split: "num = ?ip @ ?r" by simp
  have ipd: "list_all is_digit ?ip" by (simp add: list_all_iff) (meson set_takeWhileD)
  from assms have ne: "?ip \<noteq> []"
    and r: "?r = [] \<or> (hd ?r = CHR ''.'' \<and> tl ?r \<noteq> [] \<and> list_all is_digit (tl ?r))"
    by (simp_all add: is_number_def Let_def)
  show thesis
  proof (cases "?r = []")
    case True
    then have "num = ?ip" using split by (metis append_Nil2)
    then show ?thesis using int[of] ne ipd by metis
  next
    case False
    with r have "?r = CHR ''.'' # tl ?r" "tl ?r \<noteq> []" "list_all is_digit (tl ?r)"
      by (cases "?r"; auto)+
    then show ?thesis using frac[of ?ip "tl ?r"] ne ipd split by metis
  qed
qed

lemma size_re_number:
  assumes "is_number num" "list_all is_re_space ws" "u \<in> set units"
  shows "size_re (num @ ws @ u) = Some (num, u)"
proof -
  obtain c cs where rest: "ws @ u = c # cs" and c: "\<not> is_digit c" "c \<noteq> CHR ''.''"
    using unit_props[OF assms(3)] assms(2)
    by (cases ws; cases u) (auto simp: is_re_space_def is_digit_def)
  from assms(1) show ?thesis
  proof (cases rule: is_number_cases)
    case int
    then show ?thesis
      using size_re_digits[OF int rest c] size_re_unit_ok[OF assms(2,3)] by simp
  next
    case (frac ip fp)
    then show ?thesis
      using size_re_frac[OF frac(2-5) rest c(1)] size_re_unit_ok[OF assms(2,3)] by simp
  qed
qed

lemma is_number_lower: "is_number num \<Longrightarrow> ToLower num = num"
proof (erule is_number_cases)
  assume "list_all is_digit num"
  then show "ToLower num = num"
    by (simp add: ToLower_def list_all_iff map_idI to_lower_digit)
next
  fix ip fp assume "num = ip @ CHR ''.'' # fp" "list_all is_digit ip" "list_all is_digit fp"
  then show "ToLower num = num"
    by (simp add: ToLower_def list_all_iff map_idI to_lower_digit to_lower_dot)
qed

lemma is_number_hd: "is_number num \<Longrightarrow> num \<noteq> [] \<and> is_digit (hd num)"
  by (cases num) (auto simp: is_number_def Let_def split: if_splits)

lemma normalise_size:
  assumes "is_number num" "list_all is_re_space ws" "ToLower u' \<in> set units"
  shows "TrimSpace (ToLower (num @ ws @ u')) = num @ ws @ ToLower u'"
proof -
  have ws: "ToLower ws = ws"
    using assms(2) by (simp add: ToLower_def list_all_iff map_idI to_lower_re_space)
  have low: "ToLower (num @ ws @ u') = num @ ws @ ToLower u'"
    using is_number_lower[OF assms(1)] ws by (simp add: ToLower_def)
  have h: "\<not> is_space (hd (num @ ws @ ToLower u'))"
    using is_number_hd[OF assms(1)] by (auto simp: is_digit_def is_space_def)
  have l: "\<not> is_space (last (num @ ws @ ToLower u'))"
    using unit_props[OF assms(3)] by simp
  show ?thesis unfolding low
    using TrimSpace_id h l is_number_hd[OF assms(1)] by simp
qed

lemma parse_normal:
  assumes "is_number num" "list_all is_re_space ws" "ToLower u' \<in> set units"
  shows "parseSizeString ops (num @ ws @ u') = parseSizeString ops (num @ ToLower u')"
proof -
  have a: "size_re (TrimSpace (ToLower (num @ ws @ u'))) = Some (num, ToLower u')"
    using normalise_size[OF assms] size_re_number[OF assms] by simp
  have "\<And>v. v \<in> set units \<Longrightarrow> ToLower v = v"
    by (auto simp: units_def ToLower_def to_lower_def)
  then have "ToLower (ToLower u') = ToLower u'"
    using assms(3) by blast
  then have b: "size_re (TrimSpace (ToLower (num @ ToLower u'))) = Some (num, ToLower u')"
    using normalise_size[OF assms(1), of "[]" "ToLower u'"] size_re_number[OF assms(1), of "[]" "ToLower u'"] assms(3)
    by simp
  show ?thesis
    unfolding parseSizeString_def Let_def a b by simp
qed


lemma parse_100mb: "parseSizeString decimal_ops ''100mb'' = Inr 104857600"
proof -
  have a: "TrimSpace (ToLower ''100mb'') = ''100mb''"
    by (simp add: TrimSpace_def ToLower_def to_lower_def is_space_def)
  have b: "size_re ''100mb'' = Some (''100'', ''mb'')"
    by (simp add: size_re_def size_re_unit_def is_digit_def is_re_space_def units_def)
  have c: "decimal_ParseFloat ''100'' = Some (100, 0)"
    by (simp add: decimal_ParseFloat_def is_digit_def digits_val_def digit_val_def)
  show ?thesis
    unfolding parseSizeString_def Let_def a b by (simp add: decimal_ops_def c)
qed

text \<open>
  Claim C9. For a number \<open>num\<close> of the parser's syntax and two spellings \<open>u1\<close>, \<open>u2\<close> of
  one unit that differ in letter case only, \<open>num\<close> followed by \<open>u1\<close>, with or without one
  space between them, parses to what \<open>num\<close> followed by \<open>u2\<close> parses to, whatever the
  floating-point runtime is. With exact decimal arithmetic, \<open>100MB\<close>, \<open>100mb\<close> and
  \<open>100 mb\<close> all give 104857600.
\<close>

theorem parseSizeString_case_and_space:
  assumes "is_number num" and "ToLower u1 \<in> set units" and "ToLower u2 = ToLower u1"
  shows "parseSizeString ops (num @ u1) = parseSizeString ops (num @ u2)
       \<and> parseSizeString ops (num @ '' '' @ u1) = parseSizeString ops (num @ u2)
       \<and> parseSizeString decimal_ops ''100MB'' = Inr 104857600
       \<and> parseSizeString decimal_ops ''100mb'' = Inr 104857600
       \<and> parseSizeString decimal_ops ''100 mb'' = Inr 104857600"
proof -
  have sp: "list_all is_re_space '' ''" by (simp add: is_re_space_def)
  have u2: "ToLower u2 \<in> set units" using assms(2,3) by simp
  have a: "parseSizeString ops (num @ u1) = parseSizeString ops (num @ ToLower u1)"
    using parse_normal[OF assms(1) _ assms(2), of "[]" ops] by simp
  have b: "parseSizeString ops (num @ u2) = parseSizeString ops (num @ ToLower u1)"
    using parse_normal[OF assms(1) _ u2, of "[]" ops] assms(3) by simp
  have c: "parseSizeString ops (num @ '' '' @ u1) = parseSizeString ops (num @ ToLower u1)"
    using parse_normal[OF assms(1) sp assms(2), of ops] by simp
  have n: "is_number ''100''" by (simp add: is_number_def is_digit_def)
  have l: "ToLower ''MB'' = ''mb''" "ToLower ''mb'' = ''mb''"
    by (simp_all add: ToLower_def to_lower_def)
  have m: "''mb'' \<in> set units" by (simp add: units_def)
  have d: "parseSizeString decimal_ops ''100MB'' = parseSizeString decimal_ops ''100mb''"
    using parse_normal[OF n, of "[]" "''MB''" decimal_ops] l m by simp
  have e: "parseSizeString decimal_ops ''100 mb'' = parseSizeString decimal_ops ''100mb''"
    using parse_normal[OF n sp, of "''mb''" decimal_ops] l m by simp
  show ?thesis using a b c d e parse_100mb by simp
qed

theorem parseSizeString_case_and_space_witness:
  "is_number ''1.5'' \<and> ToLower ''Kb'' \<in> set units \<and> ToLower ''kB'' = ToLower ''Kb''
   \<and> parseSizeString decimal_ops (''1.5'' @ ''Kb'') = parseSizeString decimal_ops (''1.5'' @ ''kB'')
   \<and> parseSizeString decimal_ops (''1.5'' @ '' '' @ ''Kb'') = parseSizeString decimal_ops (''1.5'' @ ''kB'')"
proof -
  have h1: "is_number ''1.5''" by (simp add: is_number_def is_digit_def)
  have h2: "ToLower ''Kb'' \<in> set units" by (simp add: ToLower_def to_lower_def units_def)
  have h3: "ToLower ''kB'' = ToLower ''Kb''" by (simp add: ToLower_def to_lower_def)
  show ?thesis
    using parseSizeString_case_and_space[OF h1 h2 h3, of decimal_ops] h1 h2 h3 by simp
qed


section \<open>Properties of the retention sweeper\<close>

lemma deleted_ids_append: "deleted_ids (xs @ ys) = deleted_ids xs @ deleted_ids ys"
  by (simp add: deleted_ids_def)

lemma trace_log_Printf: "trace (log_Printf l w) = trace w"
  by (simp add: log_Printf_def)

lemma store_log_Printf: "store (log_Printf l w) = store w"
  by (simp add: log_Printf_def)

lemma logs_log_Printf: "logs (log_Printf l w) = logs w @ [l]"
  by (simp add: log_Printf_def)

lemma delete_members_effect:
  "\<exists>es ls. trace (delete_members srv g w) = trace w @ es
         \<and> logs (delete_members srv g w) = logs w @ ls
         \<and> deleted_ids es = map fi_id g
         \<and> (\<forall>i e. Deleted i (Some e) \<in> set es \<longrightarrow>
               (\<exists>fi \<in> set g. fi_id fi = i \<and> RetentionErrorDeleting (fi_name fi) e \<in> set ls))"
proof (induction g arbitrary: w)
  case Nil
  show ?case by (simp add: deleted_ids_def)
next
  case (Cons fi g)
  define w1 where "w1 = log_Printf (RetentionDeletingFile (fi_name fi)) w"
  obtain err st where d: "Files_Delete srv (fi_id fi) (store w1) = (err, st)"
    by (cases "Files_Delete srv (fi_id fi) (store w1)")
  define w2 where "w2 = w1\<lparr>store := st, trace := trace w1 @ [Deleted (fi_id fi) err]\<rparr>"
  define w3 where "w3 = (case err of Some e \<Rightarrow> log_Printf (RetentionErrorDeleting (fi_name fi) e) w2 | None \<Rightarrow> w2)"
  have step: "delete_members srv (fi # g) w = delete_members srv g w3"
    using d unfolding w1_def w2_def w3_def by (simp add: Let_def)
  have t3: "trace w3 = trace w @ [Deleted (fi_id fi) err]"
    by (simp add: w3_def w2_def w1_def trace_log_Printf split: option.splits)
  have l3: "logs w3 = logs w @ RetentionDeletingFile (fi_name fi) #
              (case err of Some e \<Rightarrow> [RetentionErrorDeleting (fi_name fi) e] | None \<Rightarrow> [])"
    by (simp add: w3_def w2_def w1_def logs_log_Printf split: option.splits)
  from Cons.IH[of w3] obtain es ls where
    es: "trace (delete_members srv g w3) = trace w3 @ es"
    and ls: "logs (delete_members srv g w3) = logs w3 @ ls"
    and ids: "deleted_ids es = map fi_id g"
    and errs: "\<forall>i e. Deleted i (Some e) \<in> set es \<longrightarrow>
               (\<exists>fi \<in> set g. fi_id fi = i \<and> RetentionErrorDeleting (fi_name fi) e \<in> set ls)"
    by blast
  let ?es = "Deleted (fi_id fi) err # es"
  let ?ls = "RetentionDeletingFile (fi_name fi) #
              (case err of Some e \<Rightarrow> [RetentionErrorDeleting (fi_name fi) e] | None \<Rightarrow> []) @ ls"
  have a: "trace (delete_members srv (fi # g) w) = trace w @ ?es"
    unfolding step es t3 by simp
  have b: "logs (delete_members srv (fi # g) w) = logs w @ ?ls"
    unfolding step ls l3 by simp
  have c: "deleted_ids ?es = map fi_id (fi # g)"
    using ids by (simp add: deleted_ids_def)
  have e: "\<forall>i e. Deleted i (Some e) \<in> set ?es \<longrightarrow>
               (\<exists>fi' \<in> set (fi # g). fi_id fi' = i \<and> RetentionErrorDeleting (fi_name fi') e \<in> set ?ls)"
    using errs by (auto split: option.splits)
  show ?case using a b c e by blast
qed

lemma sweep_group_effect:
  "\<exists>es ls. trace (sweep_group srv tp cutoff rd (k, g) w) = trace w @ es
         \<and> logs (sweep_group srv tp cutoff rd (k, g) w) = logs w @ ls
         \<and> deleted_ids es = (if eligible tp cutoff rd g then map fi_id g else [])
         \<and> (group_time tp g = None \<and> g \<noteq> [] \<longrightarrow> RetentionCouldNotParse k \<in> set ls)
         \<and> (\<forall>i e. Deleted i (Some e) \<in> set es \<longrightarrow>
               (\<exists>fi \<in> set g. fi_id fi = i \<and> RetentionErrorDeleting (fi_name fi) e \<in> set ls))"
proof (cases g)
  case Nil
  then show ?thesis
    by (simp add: sweep_group_def eligible_def group_time_def deleted_ids_def)
next
  case (Cons first others)
  show ?thesis
  proof (cases "tp (fi_created (earliest_of first g))")
    case None
    then have "sweep_group srv tp cutoff rd (k, g) w = log_Printf (RetentionCouldNotParse k) w"
      by (simp add: sweep_group_def Cons)
    then show ?thesis using None
      by (simp add: Cons eligible_def group_time_def deleted_ids_def log_Printf_def)
  next
    case (Some created)
    show ?thesis
    proof (cases "rd = 0 \<or> created < cutoff")
      case True
      let ?w = "log_Printf (RetentionDeletingGroup k (fi_created (earliest_of first g))) w"
      have sg: "sweep_group srv tp cutoff rd (k, g) w = delete_members srv g ?w"
        using Some True by (simp add: sweep_group_def Cons)
      have el: "eligible tp cutoff rd g"
        using Some True by (simp add: eligible_def group_time_def Cons)
      from delete_members_effect[of srv g ?w] obtain es ls where
        es: "trace (delete_members srv g ?w) = trace ?w @ es"
        and ls: "logs (delete_members srv g ?w) = logs ?w @ ls"
        and ids: "deleted_ids es = map fi_id g"
        and errs: "\<forall>i e. Deleted i (Some e) \<in> set es \<longrightarrow>
               (\<exists>fi \<in> set g. fi_id fi = i \<and> RetentionErrorDeleting (fi_name fi) e \<in> set ls)"
        by blast
      have gt: "group_time tp g \<noteq> None" using Some by (simp add: group_time_def Cons)
      let ?ls = "RetentionDeletingGroup k (fi_created (earliest_of first g)) # ls"
      have a: "trace (sweep_group srv tp cutoff rd (k, g) w) = trace w @ es"
        and b: "logs (sweep_group srv tp cutoff rd (k, g) w) = logs w @ ?ls"
        unfolding sg es ls by (simp_all add: log_Printf_def)
      have c: "\<forall>i e. Deleted i (Some e) \<in> set es \<longrightarrow>
               (\<exists>fi \<in> set g. fi_id fi = i \<and> RetentionErrorDeleting (fi_name fi) e \<in> set ?ls)"
        using errs by auto
      have d: "deleted_ids es = (if eligible tp cutoff rd g then map fi_id g else [])"
        using ids el by simp
      show ?thesis
        by (rule exI[of _ es], rule exI[of _ ?ls]) (use a b c d gt in blast)
    next
      case False
      then have "sweep_group srv tp cutoff rd (k, g) w = w"
        using Some by (simp add: sweep_group_def Cons)
      moreover have "\<not> eligible tp cutoff rd g"
        using Some False by (simp add: eligible_def group_time_def Cons)
      moreover have "group_time tp g \<noteq> None" using Some by (simp add: group_time_def Cons)
      ultimately show ?thesis by (simp add: deleted_ids_def)
    qed
  qed
qed


lemma sweep_groups_effect:
  "\<exists>es ls. trace (sweep_groups srv tp cutoff rd entries w) = trace w @ es
         \<and> logs (sweep_groups srv tp cutoff rd entries w) = logs w @ ls
         \<and> deleted_ids es = elig_ids tp cutoff rd entries
         \<and> (\<forall>(k, g) \<in> set entries. group_time tp g = None \<and> g \<noteq> [] \<longrightarrow> RetentionCouldNotParse k \<in> set ls)
         \<and> (\<forall>i e. Deleted i (Some e) \<in> set es \<longrightarrow>
               (\<exists>(k, g) \<in> set entries. \<exists>fi \<in> set g.
                   fi_id fi = i \<and> RetentionErrorDeleting (fi_name fi) e \<in> set ls))"
proof (induction entries arbitrary: w)
  case Nil
  show ?case by (simp add: deleted_ids_def elig_ids_def)
next
  case (Cons entry entries)
  obtain k g where entry: "entry = (k, g)" by (cases entry)
  let ?w1 = "sweep_group srv tp cutoff rd (k, g) w"
  from sweep_group_effect[of srv tp cutoff rd k g w] obtain es1 ls1 where
    t1: "trace ?w1 = trace w @ es1" and l1: "logs ?w1 = logs w @ ls1"
    and d1: "deleted_ids es1 = (if eligible tp cutoff rd g then map fi_id g else [])"
    and p1: "group_time tp g = None \<and> g \<noteq> [] \<longrightarrow> RetentionCouldNotParse k \<in> set ls1"
    and e1: "\<forall>i e. Deleted i (Some e) \<in> set es1 \<longrightarrow>
               (\<exists>fi \<in> set g. fi_id fi = i \<and> RetentionErrorDeleting (fi_name fi) e \<in> set ls1)"
    by blast
  let ?w2 = "sweep_groups srv tp cutoff rd entries ?w1"
  from Cons.IH[of ?w1] obtain es2 ls2 where
    t2: "trace ?w2 = trace ?w1 @ es2" and l2: "logs ?w2 = logs ?w1 @ ls2"
    and d2: "deleted_ids es2 = elig_ids tp cutoff rd entries"
    and p2: "\<forall>(k, g) \<in> set entries. group_time tp g = None \<and> g \<noteq> [] \<longrightarrow> RetentionCouldNotParse k \<in> set ls2"
    and e2: "\<forall>i e. Deleted i (Some e) \<in> set es2 \<longrightarrow>
               (\<exists>(k, g) \<in> set entries. \<exists>fi \<in> set g.
                   fi_id fi = i \<and> RetentionErrorDeleting (fi_name fi) e \<in> set ls2)"
    by blast
  have step: "sweep_groups srv tp cutoff rd (entry # entries) w = ?w2"
    by (simp add: entry)
  have a: "trace (sweep_groups srv tp cutoff rd (entry # entries) w) = trace w @ (es1 @ es2)"
    unfolding step t2 t1 by simp
  have b: "logs (sweep_groups srv tp cutoff rd (entry # entries) w) = logs w @ (ls1 @ ls2)"
    unfolding step l2 l1 by simp
  have c: "deleted_ids (es1 @ es2) = elig_ids tp cutoff rd (entry # entries)"
    using d1 d2 by (simp add: deleted_ids_append elig_ids_def entry)
  have d: "\<forall>(k, g) \<in> set (entry # entries). group_time tp g = None \<and> g \<noteq> []
             \<longrightarrow> RetentionCouldNotParse k \<in> set (ls1 @ ls2)"
    using p1 p2 by (auto simp: entry)
  have e: "\<forall>i e. Deleted i (Some e) \<in> set (es1 @ es2) \<longrightarrow>
               (\<exists>(k, g) \<in> set (entry # entries). \<exists>fi \<in> set g.
                   fi_id fi = i \<and> RetentionErrorDeleting (fi_name fi) e \<in> set (ls1 @ ls2))"
  proof (intro allI impI)
    fix i e assume "Deleted i (Some e) \<in> set (es1 @ es2)"
    then consider "Deleted i (Some e) \<in> set es1" | "Deleted i (Some e) \<in> set es2" by auto
    then show "\<exists>(k, g) \<in> set (entry # entries). \<exists>fi \<in> set g.
                   fi_id fi = i \<and> RetentionErrorDeleting (fi_name fi) e \<in> set (ls1 @ ls2)"
    proof cases
      case 1
      with e1 obtain fi where "fi \<in> set g" "fi_id fi = i"
        "RetentionErrorDeleting (fi_name fi) e \<in> set ls1" by blast
      then show ?thesis by (auto simp: entry intro!: bexI[of _ fi])
    next
      case 2
      with e2 obtain k' g' fi where "(k', g') \<in> set entries" "fi \<in> set g'" "fi_id fi = i"
        "RetentionErrorDeleting (fi_name fi) e \<in> set ls2" by blast
      then show ?thesis by (auto intro!: bexI[of _ "(k', g')"] bexI[of _ fi])
    qed
  qed
  show ?case
    by (rule exI[of _ "es1 @ es2"], rule exI[of _ "ls1 @ ls2"]) (use a b c d e in blast)
qed

lemma cleanup_effect:
  assumes "Files_List srv retention_query
             (if parentID \<noteq> [] \<and> parentID \<noteq> ''root'' then Some parentID else None) (store w)
           = (Inr fs, st)"
  shows "\<exists>es ls w'.
           cleanupOldBackups srv tp ro parentID rd w = (Inr (), w')
         \<and> new_events w w' = Listed retention_query
               (if parentID \<noteq> [] \<and> parentID \<noteq> ''root'' then Some parentID else None) # es
         \<and> logs w' = logs w @ ls
         \<and> deleted_ids es = elig_ids tp (AddDate_days (time_Local w) (clock w) (- rd)) rd (ro (group_files fs []))
         \<and> (\<forall>(k, g) \<in> set (ro (group_files fs [])).
               group_time tp g = None \<and> g \<noteq> [] \<longrightarrow> RetentionCouldNotParse k \<in> set ls)
         \<and> (\<forall>i e. Deleted i (Some e) \<in> set es \<longrightarrow>
               (\<exists>(k, g) \<in> set (ro (group_files fs [])). \<exists>fi \<in> set g.
                   fi_id fi = i \<and> RetentionErrorDeleting (fi_name fi) e \<in> set ls))"
proof -
  let ?d = "if parentID \<noteq> [] \<and> parentID \<noteq> ''root'' then Some parentID else None"
  let ?w1 = "w\<lparr>store := st, trace := trace w @ [Listed retention_query ?d]\<rparr>"
  let ?cut = "AddDate_days (time_Local w) (clock w) (- rd)"
  let ?w' = "sweep_groups srv tp ?cut rd (ro (group_files fs [])) ?w1"
  have run: "cleanupOldBackups srv tp ro parentID rd w = (Inr (), ?w')"
    using assms by (simp add: cleanupOldBackups_def Let_def)
  from sweep_groups_effect[of srv tp ?cut rd "ro (group_files fs [])" ?w1] obtain es ls where
    t: "trace ?w' = trace ?w1 @ es" and l: "logs ?w' = logs ?w1 @ ls"
    and d: "deleted_ids es = elig_ids tp ?cut rd (ro (group_files fs []))"
    and p: "\<forall>(k, g) \<in> set (ro (group_files fs [])).
               group_time tp g = None \<and> g \<noteq> [] \<longrightarrow> RetentionCouldNotParse k \<in> set ls"
    and e: "\<forall>i e. Deleted i (Some e) \<in> set es \<longrightarrow>
               (\<exists>(k, g) \<in> set (ro (group_files fs [])). \<exists>fi \<in> set g.
                   fi_id fi = i \<and> RetentionErrorDeleting (fi_name fi) e \<in> set ls)"
    by blast
  have n: "new_events w ?w' = Listed retention_query ?d # es"
    unfolding new_events_def t by simp
  have l': "logs ?w' = logs w @ ls" using l by simp
  show ?thesis
    by (rule exI[of _ es], rule exI[of _ ls], rule exI[of _ ?w']) (use run n l' d p e in blast)
qed


lemma set_member_ids_map_append:
  "set (member_ids (map_append m k v)) = insert (fi_id v) (set (member_ids m))"
  by (induction m k v rule: map_append.induct) (auto simp: member_ids_def)

lemma distinct_member_ids_map_append:
  "distinct (member_ids m) \<Longrightarrow> fi_id v \<notin> set (member_ids m)
   \<Longrightarrow> distinct (member_ids (map_append m k v))"
proof (induction m k v rule: map_append.induct)
  case (1 k v)
  then show ?case by (simp add: member_ids_def)
next
  case (2 k' g m k v)
  have s: "set (member_ids (map_append m k v)) = insert (fi_id v) (set (member_ids m))"
    by (rule set_member_ids_map_append)
  from 2 show ?case
    using s by (auto simp: member_ids_def)
qed

lemma distinct_member_ids_group_files:
  "distinct (member_ids m) \<Longrightarrow> distinct (map Id_of fs)
   \<Longrightarrow> set (member_ids m) \<inter> set (map Id_of fs) = {}
   \<Longrightarrow> distinct (member_ids (group_files fs m))"
proof (induction fs arbitrary: m)
  case Nil
  then show ?case by simp
next
  case (Cons f fs)
  let ?v = "\<lparr>fi_id = Id_of f, fi_name = Name f, fi_created = CreatedTime f\<rparr>"
  let ?m = "map_append m (group_prefix (Name f)) ?v"
  have a: "distinct (member_ids ?m)"
    using Cons.prems by (intro distinct_member_ids_map_append) auto
  have b: "set (member_ids ?m) \<inter> set (map Id_of fs) = {}"
    using Cons.prems by (auto simp: set_member_ids_map_append)
  show ?case using Cons.IH[OF a _ b] Cons.prems(2) by simp
qed

lemma map_append_nonempty:
  "\<forall>(k, g) \<in> set m. g \<noteq> [] \<Longrightarrow> \<forall>(k, g) \<in> set (map_append m k v). g \<noteq> []"
  by (induction m k v rule: map_append.induct) auto

lemma group_files_nonempty:
  "\<forall>(k, g) \<in> set m. g \<noteq> [] \<Longrightarrow> \<forall>(k, g) \<in> set (group_files fs m). g \<noteq> []"
proof (induction fs arbitrary: m)
  case Nil
  then show ?case by simp
next
  case (Cons f fs)
  show ?case using Cons.IH[OF map_append_nonempty[OF Cons.prems]] by simp
qed

lemma disjoint_groups:
  "distinct (member_ids m) \<Longrightarrow> (k, g) \<in> set m \<Longrightarrow> (k', g') \<in> set m \<Longrightarrow> g \<noteq> g'
   \<Longrightarrow> fi_id ` set g \<inter> fi_id ` set g' = {}"
proof (induction m)
  case Nil
  then show ?case by simp
next
  case (Cons e m)
  obtain k0 g0 where e: "e = (k0, g0)" by (cases e)
  have d: "distinct (map fi_id g0)" "distinct (member_ids m)"
    "fi_id ` set g0 \<inter> set (member_ids m) = {}"
    using Cons.prems(1) by (auto simp: member_ids_def e)
  have sub: "\<And>k g. (k, g) \<in> set m \<Longrightarrow> fi_id ` set g \<subseteq> set (member_ids m)"
    by (force simp: member_ids_def)
  consider "(k, g) = e" "(k', g') \<in> set m" | "(k', g') = e" "(k, g) \<in> set m"
    | "(k, g) \<in> set m" "(k', g') \<in> set m"
    using Cons.prems by auto
  then show ?case
  proof cases
    case 1
    then show ?thesis using d(3) sub[of k' g'] by (auto simp: e)
  next
    case 2
    then show ?thesis using d(3) sub[of k g] by (auto simp: e)
  next
    case 3
    then show ?thesis using Cons.IH[OF d(2) _ _ Cons.prems(4)] by simp
  qed
qed

lemma eligible_member_deleted:
  "(k, g) \<in> set entries \<Longrightarrow> eligible tp c rd g \<Longrightarrow> fi \<in> set g
   \<Longrightarrow> fi_id fi \<in> set (elig_ids tp c rd entries)"
  by (force simp: elig_ids_def)

lemma other_member_not_deleted:
  assumes "distinct (member_ids m)" "set entries \<subseteq> set m" "(k, g) \<in> set m"
    "\<not> eligible tp c rd g" "fi \<in> set g"
  shows "fi_id fi \<notin> set (elig_ids tp c rd entries)"
proof
  assume "fi_id fi \<in> set (elig_ids tp c rd entries)"
  then obtain k' g' where e: "(k', g') \<in> set entries" "eligible tp c rd g'" "fi_id fi \<in> fi_id ` set g'"
    by (auto simp: elig_ids_def split: if_splits)
  then have "g \<noteq> g'" using assms(4) by auto
  moreover have "(k', g') \<in> set m" using e(1) assms(2) by auto
  ultimately have "fi_id ` set g \<inter> fi_id ` set g' = {}"
    using disjoint_groups[OF assms(1) assms(3)] by blast
  then show False using e(3) assms(5) by auto
qed

lemma distinct_listing:
  "distinct (map Id_of fs) \<Longrightarrow> distinct (member_ids (group_files fs []))"
  by (rule distinct_member_ids_group_files) (simp_all add: member_ids_def)



















lemma Index_from_none:
  assumes p: "p \<noteq> []"
  shows "Index_from i s p = - 1 \<longleftrightarrow> (\<forall>a b. s \<noteq> a @ p @ b)"
proof (induction s arbitrary: i)
  case Nil
  show ?case using p by simp
next
  case (Cons c cs)
  show ?case
  proof (cases "take (length p) (c # cs) = p")
    case True
    then have "c # cs = [] @ p @ drop (length p) (c # cs)"
      by (metis append_Nil append_take_drop_id)
    then have "\<exists>a b. c # cs = a @ p @ b" by blast
    moreover have "Index_from i (c # cs) p \<noteq> - 1" using True by simp
    ultimately show ?thesis by blast
  next
    case False
    have occ: "(\<exists>a b. c # cs = a @ p @ b) \<longleftrightarrow> (\<exists>a b. cs = a @ p @ b)"
    proof
      assume "\<exists>a b. c # cs = a @ p @ b"
      then obtain a b where ab: "c # cs = a @ p @ b" by blast
      show "\<exists>a b. cs = a @ p @ b"
      proof (cases a)
        case Nil
        then have "take (length p) (c # cs) = p" using ab by simp
        then show ?thesis using False by simp
      next
        case (Cons a0 a')
        then have "cs = a' @ p @ b" using ab by simp
        then show ?thesis by blast
      qed
    next
      assume "\<exists>a b. cs = a @ p @ b"
      then obtain a b where "cs = a @ p @ b" by blast
      then have "c # cs = (c # a) @ p @ b" by simp
      then show "\<exists>a b. c # cs = a @ p @ b" by blast
    qed
    have step: "Index_from i (c # cs) p = Index_from (Suc i) cs p" using False by simp
    have "Index_from i (c # cs) p = - 1 \<longleftrightarrow> \<not> (\<exists>a b. cs = a @ p @ b)"
      unfolding step using Cons.IH[of "Suc i"] by blast
    also have "\<dots> \<longleftrightarrow> \<not> (\<exists>a b. c # cs = a @ p @ b)" unfolding occ ..
    finally show ?thesis by blast
  qed
qed

lemma Index_none: "p \<noteq> [] \<Longrightarrow> Index s p = - 1 \<longleftrightarrow> (\<forall>a b. s \<noteq> a @ p @ b)"
  unfolding Index_def by (rule Index_from_none)




lemma new_events_deleted:
  "new_events w w' = Listed q d # es \<Longrightarrow> deleted_ids (new_events w w') = deleted_ids es"
  by (simp add: deleted_ids_def)

text \<open>
  Claim C8. When the listing succeeds, the sweep returns no error, whatever the service
  answers to the deletions; the deletions it attempts are, entry by entry in the order
  of the loop, all members of every group that is to be deleted; and every deletion
  that failed has its line among those the run adds to the log.
\<close>

theorem sweep_attempts_every_member:
  assumes "Files_List srv retention_query
             (if parentID \<noteq> [] \<and> parentID \<noteq> ''root'' then Some parentID else None) (store w)
           = (Inr fs, st)"
  shows "\<exists>w'. cleanupOldBackups srv time_Parse map_range parentID retentionDays w = (Inr (), w')
       \<and> deleted_ids (new_events w w')
           = concat (map (\<lambda>(k, g). if eligible time_Parse (AddDate_days (time_Local w) (clock w) (- retentionDays)) retentionDays g
                                   then map fi_id g else [])
                      (map_range (group_files fs [])))
       \<and> (\<forall>i e. Deleted i (Some e) \<in> set (new_events w w') \<longrightarrow>
             (\<exists>name. RetentionErrorDeleting name e \<in> set (drop (length (logs w)) (logs w'))))"
proof -
  from cleanup_effect[OF assms, of time_Parse map_range retentionDays] obtain es ls w' where
    run: "cleanupOldBackups srv time_Parse map_range parentID retentionDays w = (Inr (), w')"
    and n: "new_events w w' = Listed retention_query
               (if parentID \<noteq> [] \<and> parentID \<noteq> ''root'' then Some parentID else None) # es"
    and l: "logs w' = logs w @ ls"
    and d: "deleted_ids es = elig_ids time_Parse (AddDate_days (time_Local w) (clock w) (- retentionDays)) retentionDays
                               (map_range (group_files fs []))"
    and e: "\<forall>i e. Deleted i (Some e) \<in> set es \<longrightarrow>
               (\<exists>(k, g) \<in> set (map_range (group_files fs [])). \<exists>fi \<in> set g.
                   fi_id fi = i \<and> RetentionErrorDeleting (fi_name fi) e \<in> set ls)"
    by blast
  have a: "deleted_ids (new_events w w')
           = concat (map (\<lambda>(k, g). if eligible time_Parse (AddDate_days (time_Local w) (clock w) (- retentionDays)) retentionDays g
                                   then map fi_id g else [])
                      (map_range (group_files fs [])))"
    using new_events_deleted[OF n] d by (simp add: elig_ids_def)
  have b: "\<forall>i e. Deleted i (Some e) \<in> set (new_events w w') \<longrightarrow>
             (\<exists>name. RetentionErrorDeleting name e \<in> set (drop (length (logs w)) (logs w')))"
  proof (intro allI impI)
    fix i e assume "Deleted i (Some e) \<in> set (new_events w w')"
    then have "Deleted i (Some e) \<in> set es" using n by simp
    with e obtain fi :: fileInfo where "RetentionErrorDeleting (fi_name fi) e \<in> set ls" by blast
    then show "\<exists>name. RetentionErrorDeleting name e \<in> set (drop (length (logs w)) (logs w'))"
      using l by auto
  qed
  show ?thesis using run a b by blast
qed


lemma fi_id_member: "fi_id (member file_id name created) = file_id"
  by (simp add: member_def)

lemmas rfc3339_eval = rfc3339_def num_at_def rfc3339_tail_def rfc3339_zone_def is_digit_def
  digits_val_def digit_val_def days_in_month_def days_from_civil_def

lemma mem_list:
  "Files_List mem_srv q d (store (sweep_world fs refused now)) = (Inr fs, drive_with fs refused)"
  by (simp add: mem_srv_def sweep_world_def drive_with_def)

lemma clock_sweep_world: "clock (sweep_world fs refused now) = now"
  by (simp add: sweep_world_def)

lemma time_Local_sweep_world: "time_Local (sweep_world fs refused now) = utc_location"
  by (simp add: sweep_world_def)

lemma AddDate_days_utc: "AddDate_days utc_location t days = t + days * day_ns"
proof -
  have "AddDate_days utc_location t days
        = (t div 1000000000 + days * 86400) * 1000000000 + t mod 1000000000"
    by (simp add: AddDate_days_def utc_location_def Let_def)
  also have "\<dots> = (t div 1000000000) * 1000000000 + t mod 1000000000 + days * day_ns"
    by (simp add: day_ns_def algebra_simps)
  also have "\<dots> = t + days * day_ns"
    by (simp only: div_mult_mod_eq)
  finally show ?thesis .
qed

lemmas sweep_world_time = clock_sweep_world time_Local_sweep_world AddDate_days_utc day_ns_def

lemma demo_groups:
  "group_files demo_listing [] =
     [(''v_2025-01-10T08:00:00Z'',
       [member ''a'' ''v_2025-01-10T08:00:00Z.tar.part001'' ''2025-01-10T08:00:00Z'',
        member ''b'' ''v_2025-01-10T08:00:00Z.tar.part002'' ''2025-01-10T08:00:05Z'']),
      (''w_2025-02-20T08:00:00Z'',
       [member ''c'' ''w_2025-02-20T08:00:00Z.tar.gz'' ''2025-02-20T08:00:00Z''])]"
  by (simp add: demo_listing_def remote_file_def member_def group_prefix_def Index_def)

lemma demo_time_v:
  "group_time rfc3339
     [member ''a'' ''v_2025-01-10T08:00:00Z.tar.part001'' ''2025-01-10T08:00:00Z'',
      member ''b'' ''v_2025-01-10T08:00:00Z.tar.part002'' ''2025-01-10T08:00:05Z'']
   = Some 1736496000000000000"
  by (simp add: group_time_def earliest_of_def member_def rfc3339_eval)

lemma demo_time_w:
  "group_time rfc3339 [member ''c'' ''w_2025-02-20T08:00:00Z.tar.gz'' ''2025-02-20T08:00:00Z'']
   = Some 1740038400000000000"
  by (simp add: group_time_def earliest_of_def member_def rfc3339_eval)

lemma cleanup_deleted_ids:
  assumes "Files_List srv retention_query
             (if parentID \<noteq> [] \<and> parentID \<noteq> ''root'' then Some parentID else None) (store w)
           = (Inr fs, st)"
  shows "fst (cleanupOldBackups srv tp ro parentID rd w) = Inr ()
       \<and> deleted_ids (new_events w (snd (cleanupOldBackups srv tp ro parentID rd w)))
           = elig_ids tp (AddDate_days (time_Local w) (clock w) (- rd)) rd (ro (group_files fs []))"
proof -
  from cleanup_effect[OF assms, of tp ro rd] obtain es ls w' where
    run: "cleanupOldBackups srv tp ro parentID rd w = (Inr (), w')"
    and n: "new_events w w' = Listed retention_query
               (if parentID \<noteq> [] \<and> parentID \<noteq> ''root'' then Some parentID else None) # es"
    and d: "deleted_ids es = elig_ids tp (AddDate_days (time_Local w) (clock w) (- rd)) rd (ro (group_files fs []))"
    by blast
  show ?thesis using run new_events_deleted[OF n] d by simp
qed

lemma sweep_group_unfold:
  "sweep_group srv tp cutoff rd (k, g) w =
     (if g = [] then w
      else case group_time tp g of
             None \<Rightarrow> log_Printf (RetentionCouldNotParse k) w
           | Some created \<Rightarrow>
               if rd = 0 \<or> created < cutoff
               then delete_members srv g
                      (log_Printf (RetentionDeletingGroup k (fi_created (earliest_of (hd g) g))) w)
               else w)"
  by (cases g) (auto simp: sweep_group_def group_time_def Let_def split: option.splits)

lemma demo_run:
  "trace (snd (cleanupOldBackups mem_srv rfc3339 id ''root'' 30
               (sweep_world demo_listing [''a''] 1740787200000000000)))
   = [Listed retention_query None, Deleted ''a'' (Some ''forbidden''), Deleted ''b'' None]"
  by (simp add: cleanupOldBackups_def mem_list sweep_world_time
      demo_groups sweep_group_unfold demo_time_v demo_time_w fi_id_member
      sweep_world_def mem_srv_def drive_with_def log_Printf_def Let_def)


text \<open>The Drive refuses to delete \<open>a\<close>; \<open>b\<close>, of the same group, is attempted all the
  same and the sweep returns no error.\<close>

theorem sweep_attempts_every_member_witness:
  "Files_List mem_srv retention_query
     (if ''root'' \<noteq> [] \<and> ''root'' \<noteq> ''root'' then Some ''root'' else None)
     (store (sweep_world demo_listing [''a''] 1740787200000000000))
   = (Inr demo_listing, drive_with demo_listing [''a''])
   \<and> (\<exists>w'. cleanupOldBackups mem_srv rfc3339 id ''root'' 30
               (sweep_world demo_listing [''a''] 1740787200000000000) = (Inr (), w')
          \<and> deleted_ids (new_events (sweep_world demo_listing [''a''] 1740787200000000000) w')
              = [''a'', ''b'']
          \<and> trace w' = [Listed retention_query None, Deleted ''a'' (Some ''forbidden''),
                         Deleted ''b'' None])"
proof -
  have h: "Files_List mem_srv retention_query
     (if ''root'' \<noteq> [] \<and> ''root'' \<noteq> ''root'' then Some ''root'' else None)
     (store (sweep_world demo_listing [''a''] 1740787200000000000))
   = (Inr demo_listing, drive_with demo_listing [''a''])"
    by (rule mem_list)
  from sweep_attempts_every_member[OF h, of rfc3339 id 30] obtain w' where
    run: "cleanupOldBackups mem_srv rfc3339 id ''root'' 30
            (sweep_world demo_listing [''a''] 1740787200000000000) = (Inr (), w')"
    and d: "deleted_ids (new_events (sweep_world demo_listing [''a''] 1740787200000000000) w')
           = concat (map (\<lambda>(k, g). if eligible rfc3339
                            (AddDate_days (time_Local (sweep_world demo_listing [''a''] 1740787200000000000)) (clock (sweep_world demo_listing [''a''] 1740787200000000000)) (- 30)) 30 g
                                   then map fi_id g else [])
                      (id (group_files demo_listing [])))"
    by blast
  have d': "deleted_ids (new_events (sweep_world demo_listing [''a''] 1740787200000000000) w')
            = [''a'', ''b'']"
    unfolding d
    by (simp add: demo_groups eligible_def demo_time_v demo_time_w sweep_world_time
        fi_id_member)
  have t: "trace w' = [Listed retention_query None, Deleted ''a'' (Some ''forbidden''),
                       Deleted ''b'' None]"
    using demo_run run by simp
  show ?thesis using h run d' t by blast
qed


lemma cleanup_groupwise:
  assumes list: "Files_List srv retention_query
             (if parentID \<noteq> [] \<and> parentID \<noteq> ''root'' then Some parentID else None) (store w)
           = (Inr fs, st)"
    and range: "set (ro (group_files fs [])) = set (group_files fs [])"
    and ids: "distinct (map Id_of fs)"
  shows "\<exists>w'. cleanupOldBackups srv tp ro parentID rd w = (Inr (), w')
       \<and> (\<forall>(k, g) \<in> set (group_files fs []). g \<noteq> []
            \<and> (group_time tp g = None \<longrightarrow> RetentionCouldNotParse k \<in> set (logs w'))
            \<and> (\<forall>fi \<in> set g. fi_id fi \<in> set (deleted_ids (new_events w w'))
                  \<longleftrightarrow> eligible tp (AddDate_days (time_Local w) (clock w) (- rd)) rd g))"
proof -
  let ?G = "group_files fs []"
  let ?c = "AddDate_days (time_Local w) (clock w) (- rd)"
  from cleanup_effect[OF list, of tp ro rd] obtain es ls w' where
    run: "cleanupOldBackups srv tp ro parentID rd w = (Inr (), w')"
    and n: "new_events w w' = Listed retention_query
               (if parentID \<noteq> [] \<and> parentID \<noteq> ''root'' then Some parentID else None) # es"
    and l: "logs w' = logs w @ ls"
    and d: "deleted_ids es = elig_ids tp ?c rd (ro ?G)"
    and p: "\<forall>(k, g) \<in> set (ro ?G). group_time tp g = None \<and> g \<noteq> []
              \<longrightarrow> RetentionCouldNotParse k \<in> set ls"
    by blast
  have del: "deleted_ids (new_events w w') = elig_ids tp ?c rd (ro ?G)"
    using new_events_deleted[OF n] d by simp
  have ne: "\<forall>(k, g) \<in> set ?G. g \<noteq> []"
    by (rule group_files_nonempty) simp
  have dis: "distinct (member_ids ?G)" by (rule distinct_listing[OF ids])
  have "g \<noteq> []
        \<and> (group_time tp g = None \<longrightarrow> RetentionCouldNotParse k \<in> set (logs w'))
        \<and> (\<forall>fi \<in> set g. fi_id fi \<in> set (deleted_ids (new_events w w'))
                  \<longleftrightarrow> eligible tp ?c rd g)"
    if kg: "(k, g) \<in> set ?G" for k g
  proof (intro conjI ballI)
    show g: "g \<noteq> []" using ne kg by blast
    show "group_time tp g = None \<longrightarrow> RetentionCouldNotParse k \<in> set (logs w')"
      using p kg range g l by auto
    fix fi assume fi: "fi \<in> set g"
    show "fi_id fi \<in> set (deleted_ids (new_events w w')) \<longleftrightarrow> eligible tp ?c rd g"
    proof (cases "eligible tp ?c rd g")
      case True
      then show ?thesis
        using eligible_member_deleted[of k g "ro ?G" tp ?c rd fi] kg range fi del by simp
    next
      case False
      then show ?thesis
        using other_member_not_deleted[OF dis _ kg False fi, of "ro ?G"] range del by simp
    qed
  qed
  then show ?thesis using run by blast
qed

lemma string_less_irrefl: "\<not> string_less a a"
  by (induction a) simp_all

lemma string_less_trans: "string_less a b \<Longrightarrow> string_less b c \<Longrightarrow> string_less a c"
proof (induction a b arbitrary: c rule: string_less.induct)
  case 1
  then show ?case by simp
next
  case (2 y ys)
  then show ?case by (cases c) simp_all
next
  case (3 x xs)
  then show ?case by simp
next
  case (4 x xs y ys)
  then show ?case by (cases c) auto
qed

lemma earliest_of_snoc:
  "earliest_of first (members @ [fi]) =
     (if string_less (fi_created fi) (fi_created (earliest_of first members)) then fi
      else earliest_of first members)"
  by (simp add: earliest_of_def)

lemma earliest_of_in: "earliest_of first members \<in> insert first (set members)"
proof (induction members rule: rev_induct)
  case Nil
  show ?case by (simp add: earliest_of_def)
next
  case (snoc fi members)
  then show ?case by (auto simp: earliest_of_snoc)
qed

lemma earliest_of_least:
  "m \<in> set members \<Longrightarrow> \<not> string_less (fi_created m) (fi_created (earliest_of first members))"
proof (induction members rule: rev_induct)
  case Nil
  then show ?case by simp
next
  case (snoc fi members)
  show ?case
  proof (cases "string_less (fi_created fi) (fi_created (earliest_of first members))")
    case True
    then have e: "earliest_of first (members @ [fi]) = fi" by (simp add: earliest_of_snoc)
    show ?thesis
    proof (cases "m = fi")
      case True
      then show ?thesis using e string_less_irrefl by simp
    next
      case False
      then have "m \<in> set members" using snoc.prems by simp
      then have n: "\<not> string_less (fi_created m) (fi_created (earliest_of first members))"
        by (rule snoc.IH)
      show ?thesis
      proof
        assume "string_less (fi_created m) (fi_created (earliest_of first (members @ [fi])))"
        then have "string_less (fi_created m) (fi_created fi)" using e by simp
        then have "string_less (fi_created m) (fi_created (earliest_of first members))"
          using True by (rule string_less_trans)
        then show False using n by simp
      qed
    qed
  next
    case False
    then have e: "earliest_of first (members @ [fi]) = earliest_of first members"
      by (simp add: earliest_of_snoc)
    show ?thesis
    proof (cases "m = fi")
      case True
      then show ?thesis using False e by simp
    next
      case m: False
      then have "m \<in> set members" using snoc.prems by simp
      then show ?thesis using snoc.IH e by simp
    qed
  qed
qed

text \<open>When every member's timestamp parses and an earlier instant is always a smaller
  string, the time the loop arrives at is the earliest instant of the group.\<close>

lemma group_time_earliest:
  assumes g: "g \<noteq> []"
    and parse: "\<forall>fi \<in> set g. tp (fi_created fi) \<noteq> None"
    and order: "\<forall>a \<in> set g. \<forall>b \<in> set g.
                  the (tp (fi_created a)) < the (tp (fi_created b))
                  \<longrightarrow> string_less (fi_created a) (fi_created b)"
  shows "group_time tp g = Some (Min ((\<lambda>fi. the (tp (fi_created fi))) ` set g))"
proof -
  obtain first others where c: "g = first # others" using g by (cases g) auto
  let ?p = "earliest_of first g"
  let ?i = "\<lambda>fi. the (tp (fi_created fi))"
  have pin: "?p \<in> set g" using earliest_of_in[of first g] c by auto
  have le: "?i ?p \<le> ?i m" if m: "m \<in> set g" for m
  proof (rule ccontr)
    assume "\<not> ?i ?p \<le> ?i m"
    then have "?i m < ?i ?p" by simp
    then have "string_less (fi_created m) (fi_created ?p)"
      using bspec[OF bspec[OF order m] pin] by simp
    then show False using earliest_of_least[OF m, of first] by simp
  qed
  have "Min (?i ` set g) = ?i ?p"
  proof (rule Min_eqI)
    show "finite (?i ` set g)" by simp
    show "\<And>y. y \<in> ?i ` set g \<Longrightarrow> ?i ?p \<le> y" using le by auto
    show "?i ?p \<in> ?i ` set g" using pin by simp
  qed
  moreover have "tp (fi_created ?p) \<noteq> None" using bspec[OF parse pin] .
  ultimately show ?thesis by (auto simp: group_time_def c)
qed

text \<open>The cutoff lies away from \<open>days\<close> times 24 hours by the difference of two offsets
  of the zone.\<close>

lemma AddDate_days_shape:
  "\<exists>x. AddDate_days lookup t days
       = t + days * day_ns + (fst (lookup (t div 1000000000)) - fst (lookup x)) * 1000000000"
proof -
  define sec where "sec = t div 1000000000"
  define unix where "unix = sec + fst (lookup sec) + days * 86400"
  obtain off zs ze where l: "lookup unix = (off, zs, ze)" by (cases "lookup unix")
  define off' where "off' = (if off \<noteq> 0 \<and> (unix - off < zs \<or> ze \<le> unix - off)
                             then fst (lookup (unix - off)) else off)"
  have r: "AddDate_days lookup t days = (unix - off') * 1000000000 + t mod 1000000000"
    using l by (simp add: AddDate_days_def Let_def sec_def unix_def off'_def)
  have t: "sec * 1000000000 + t mod 1000000000 = t" by (simp add: sec_def)
  have "off' = fst (lookup (unix - off)) \<or> off' = fst (lookup unix)"
    using l by (simp add: off'_def)
  then obtain x where x: "off' = fst (lookup x)" by blast
  have "(unix - off') * 1000000000 + t mod 1000000000
        = (sec * 1000000000 + t mod 1000000000) + days * day_ns
          + (fst (lookup sec) - fst (lookup x)) * 1000000000"
    by (simp add: unix_def x day_ns_def algebra_simps)
  also have "\<dots> = t + days * day_ns + (fst (lookup sec) - fst (lookup x)) * 1000000000"
    by (simp only: t)
  finally show ?thesis unfolding r sec_def by blast
qed

lemma AddDate_days_near:
  assumes "\<forall>s s'. \<bar>fst (lookup s) - fst (lookup s')\<bar> < 86400"
  shows "t + days * day_ns - day_ns < AddDate_days lookup t days"
    and "AddDate_days lookup t days < t + days * day_ns + day_ns"
proof -
  from AddDate_days_shape[of lookup t days] obtain x where
    x: "AddDate_days lookup t days
        = t + days * day_ns + (fst (lookup (t div 1000000000)) - fst (lookup x)) * 1000000000"
    by blast
  have "\<bar>fst (lookup (t div 1000000000)) - fst (lookup x)\<bar> < 86400"
    using assms by blast
  then have a: "- 86400 < fst (lookup (t div 1000000000)) - fst (lookup x)"
    and b: "fst (lookup (t div 1000000000)) - fst (lookup x) < 86400" by linarith+
  show "t + days * day_ns - day_ns < AddDate_days lookup t days"
    using a unfolding x day_ns_def by simp
  show "AddDate_days lookup t days < t + days * day_ns + day_ns"
    using b unfolding x day_ns_def by simp
qed

text \<open>
  Claim C5, amended. Take a group of the listing (the identifiers of the listing being
  distinct, and the loop visiting the entries of the map) whose members' timestamps
  all parse and of which an earlier instant is always the smaller string. A deletion is
  attempted for a member of the group if and only if \<open>retentionDays\<close> is 0 or the
  creation time of the group, the earliest instant among its members, is strictly
  before the cutoff, which is the clock moved back \<open>retentionDays\<close> days of the calendar
  in the local zone. With 30 days, in a zone whose offsets differ by less than a day, a
  group created 31 times 24 hours ago is deleted and one created 29 times 24 hours ago
  is kept.
\<close>

theorem retention_decision:
  assumes "Files_List srv retention_query
             (if parentID \<noteq> [] \<and> parentID \<noteq> ''root'' then Some parentID else None) (store w)
           = (Inr fs, st)"
    and "set (map_range (group_files fs [])) = set (group_files fs [])"
    and "distinct (map Id_of fs)"
    and "(k, g) \<in> set (group_files fs [])"
    and "\<forall>fi \<in> set g. time_Parse (fi_created fi) \<noteq> None"
    and "\<forall>a \<in> set g. \<forall>b \<in> set g.
           the (time_Parse (fi_created a)) < the (time_Parse (fi_created b))
           \<longrightarrow> string_less (fi_created a) (fi_created b)"
  shows "\<exists>w'. cleanupOldBackups srv time_Parse map_range parentID retentionDays w = (Inr (), w')
       \<and> g \<noteq> []
       \<and> (\<forall>fi \<in> set g. fi_id fi \<in> set (deleted_ids (new_events w w'))
              \<longleftrightarrow> (retentionDays = 0
                   \<or> Min ((\<lambda>fi. the (time_Parse (fi_created fi))) ` set g)
                       < AddDate_days (time_Local w) (clock w) (- retentionDays)))
       \<and> (retentionDays = 30
            \<and> Min ((\<lambda>fi. the (time_Parse (fi_created fi))) ` set g) = clock w - 31 * day_ns
            \<and> (\<forall>s s'. \<bar>fst (time_Local w s) - fst (time_Local w s')\<bar> < 86400)
            \<longrightarrow> (\<forall>fi \<in> set g. fi_id fi \<in> set (deleted_ids (new_events w w'))))
       \<and> (retentionDays = 30
            \<and> Min ((\<lambda>fi. the (time_Parse (fi_created fi))) ` set g) = clock w - 29 * day_ns
            \<and> (\<forall>s s'. \<bar>fst (time_Local w s) - fst (time_Local w s')\<bar> < 86400)
            \<longrightarrow> (\<forall>fi \<in> set g. fi_id fi \<notin> set (deleted_ids (new_events w w'))))"
proof -
  let ?t = "Min ((\<lambda>fi. the (time_Parse (fi_created fi))) ` set g)"
  let ?cut = "AddDate_days (time_Local w) (clock w) (- retentionDays)"
  let ?del = "\<lambda>w' fi. fi_id fi \<in> set (deleted_ids (new_events w w'))"
  from cleanup_groupwise[where ro = map_range and tp = time_Parse and rd = retentionDays, OF assms(1-3)]
  obtain w' where
    run: "cleanupOldBackups srv time_Parse map_range parentID retentionDays w = (Inr (), w')"
    and all: "\<forall>(k, g) \<in> set (group_files fs []). g \<noteq> []
            \<and> (group_time time_Parse g = None \<longrightarrow> RetentionCouldNotParse k \<in> set (logs w'))
            \<and> (\<forall>fi \<in> set g. fi_id fi \<in> set (deleted_ids (new_events w w'))
                  \<longleftrightarrow> eligible time_Parse ?cut retentionDays g)"
    by blast
  have sp: "g \<noteq> [] \<and> (\<forall>fi \<in> set g. ?del w' fi \<longleftrightarrow> eligible time_Parse ?cut retentionDays g)"
    using bspec[OF all assms(4)] by simp
  then have g: "g \<noteq> []" by simp
  have gt: "group_time time_Parse g = Some ?t"
    by (rule group_time_earliest[OF g assms(5) assms(6)])
  have e: "eligible time_Parse ?cut retentionDays g \<longleftrightarrow> (retentionDays = 0 \<or> ?t < ?cut)"
    using gt by (simp add: eligible_def)
  have iff: "\<forall>fi \<in> set g. ?del w' fi \<longleftrightarrow> (retentionDays = 0 \<or> ?t < ?cut)"
    using sp unfolding e by simp
  have old: "retentionDays = 30 \<and> ?t = clock w - 31 * day_ns
            \<and> (\<forall>s s'. \<bar>fst (time_Local w s) - fst (time_Local w s')\<bar> < 86400)
            \<longrightarrow> (\<forall>fi \<in> set g. ?del w' fi)"
  proof (intro impI, elim conjE)
    assume r: "retentionDays = 30" and t: "?t = clock w - 31 * day_ns"
      and z: "\<forall>s s'. \<bar>fst (time_Local w s) - fst (time_Local w s')\<bar> < 86400"
    have "clock w + (- 30) * day_ns - day_ns < AddDate_days (time_Local w) (clock w) (- 30)"
      by (rule AddDate_days_near(1)[OF z])
    then have "?t < ?cut" unfolding t r by simp
    then show "\<forall>fi \<in> set g. ?del w' fi" using iff by simp
  qed
  have young: "retentionDays = 30 \<and> ?t = clock w - 29 * day_ns
            \<and> (\<forall>s s'. \<bar>fst (time_Local w s) - fst (time_Local w s')\<bar> < 86400)
            \<longrightarrow> (\<forall>fi \<in> set g. \<not> ?del w' fi)"
  proof (intro impI, elim conjE)
    assume r: "retentionDays = 30" and t: "?t = clock w - 29 * day_ns"
      and z: "\<forall>s s'. \<bar>fst (time_Local w s) - fst (time_Local w s')\<bar> < 86400"
    have "AddDate_days (time_Local w) (clock w) (- 30) < clock w + (- 30) * day_ns + day_ns"
      by (rule AddDate_days_near(2)[OF z])
    then have "\<not> ?t < ?cut" unfolding t r by simp
    then show "\<forall>fi \<in> set g. \<not> ?del w' fi" using iff r by simp
  qed
  show ?thesis
    by (intro exI[of _ w'] conjI run g iff old young)
qed

text \<open>
  Claim C10. When the \<open>created\<close> string of \<open>earliest\<close> of a group does not parse, no
  deletion is attempted for any member of the group, whatever \<open>retentionDays\<close> is (0
  included); the line about the group is in the log; every group whose creation time
  parses and passes the test has deletions attempted for all its members; and the
  sweep returns no error.
\<close>

theorem unparsable_group_skipped:
  assumes "Files_List srv retention_query
             (if parentID \<noteq> [] \<and> parentID \<noteq> ''root'' then Some parentID else None) (store w)
           = (Inr fs, st)"
    and "set (map_range (group_files fs [])) = set (group_files fs [])"
    and "distinct (map Id_of fs)"
    and "(k, g) \<in> set (group_files fs [])"
    and "group_time time_Parse g = None"
  shows "\<exists>w'. cleanupOldBackups srv time_Parse map_range parentID retentionDays w = (Inr (), w')
       \<and> (\<forall>fi \<in> set g. fi_id fi \<notin> set (deleted_ids (new_events w w')))
       \<and> RetentionCouldNotParse k \<in> set (logs w')
       \<and> (\<forall>(k', g') \<in> set (group_files fs []). \<forall>t.
             group_time time_Parse g' = Some t
             \<and> (retentionDays = 0 \<or> t < AddDate_days (time_Local w) (clock w) (- retentionDays))
             \<longrightarrow> (\<forall>fi \<in> set g'. fi_id fi \<in> set (deleted_ids (new_events w w'))))"
proof -
  from cleanup_groupwise[where ro = map_range and tp = time_Parse and rd = retentionDays, OF assms(1-3)]
  obtain w' where
    run: "cleanupOldBackups srv time_Parse map_range parentID retentionDays w = (Inr (), w')"
    and all: "\<forall>(k, g) \<in> set (group_files fs []). g \<noteq> []
            \<and> (group_time time_Parse g = None \<longrightarrow> RetentionCouldNotParse k \<in> set (logs w'))
            \<and> (\<forall>fi \<in> set g. fi_id fi \<in> set (deleted_ids (new_events w w'))
                  \<longleftrightarrow> eligible time_Parse (AddDate_days (time_Local w) (clock w) (- retentionDays)) retentionDays g)"
    by blast
  have ne: "\<not> eligible time_Parse (AddDate_days (time_Local w) (clock w) (- retentionDays)) retentionDays g"
    using assms(5) by (simp add: eligible_def)
  have sp: "(group_time time_Parse g = None \<longrightarrow> RetentionCouldNotParse k \<in> set (logs w'))
            \<and> (\<forall>fi \<in> set g. fi_id fi \<in> set (deleted_ids (new_events w w'))
                  \<longleftrightarrow> eligible time_Parse (AddDate_days (time_Local w) (clock w) (- retentionDays)) retentionDays g)"
    using bspec[OF all assms(4)] by simp
  have a: "\<forall>fi \<in> set g. fi_id fi \<notin> set (deleted_ids (new_events w w'))"
    using sp ne by simp
  have b: "RetentionCouldNotParse k \<in> set (logs w')"
    using sp assms(5) by simp
  have c: "\<forall>(k', g') \<in> set (group_files fs []). \<forall>t.
             group_time time_Parse g' = Some t
             \<and> (retentionDays = 0 \<or> t < AddDate_days (time_Local w) (clock w) (- retentionDays))
             \<longrightarrow> (\<forall>fi \<in> set g'. fi_id fi \<in> set (deleted_ids (new_events w w')))"
  proof (intro ballI allI impI, clarify)
    fix k' g' t fi
    assume kg: "(k', g') \<in> set (group_files fs [])" and t: "group_time time_Parse g' = Some t"
      and c: "retentionDays = 0 \<or> t < AddDate_days (time_Local w) (clock w) (- retentionDays)" and fi: "fi \<in> set g'"
    have "eligible time_Parse (AddDate_days (time_Local w) (clock w) (- retentionDays)) retentionDays g'"
      using t c by (simp add: eligible_def)
    then show "fi_id fi \<in> set (deleted_ids (new_events w w'))"
      using bspec[OF all kg] fi by simp
  qed
  show ?thesis using run a b c by blast
qed


lemma demo_distinct: "distinct (map Id_of demo_listing)"
  by (simp add: demo_listing_def remote_file_def)

lemma mem_list_zoned:
  "Files_List mem_srv q d (store (zoned_world loc fs refused now)) = (Inr fs, drive_with fs refused)"
  by (simp add: zoned_world_def mem_srv_def sweep_world_def drive_with_def)

lemma spring_groups:
  "group_files spring_listing [] =
     [(''v_2025-03-15T11:00:00+01:00'',
       [member ''a'' ''v_2025-03-15T11:00:00+01:00.tar.part001'' ''2025-03-15T10:00:00.000Z'',
        member ''b'' ''v_2025-03-15T11:00:00+01:00.tar.part002'' ''2025-03-15T10:00:05.000Z'']),
      (''w_2025-03-17T11:00:00+01:00'',
       [member ''c'' ''w_2025-03-17T11:00:00+01:00.tar.gz'' ''2025-03-17T10:00:00.000Z'']),
      (''x_2025-03-16T11:30:00+01:00'',
       [member ''d'' ''x_2025-03-16T11:30:00+01:00.tar.gz'' ''2025-03-16T10:30:00.000Z''])]"
  by (simp add: spring_listing_def remote_file_def member_def group_prefix_def Index_def)

lemma spring_distinct: "distinct (map Id_of spring_listing)"
  by (simp add: spring_listing_def remote_file_def)

lemma replicate_6: "replicate 6 c = [c, c, c, c, c, c]"
  by (simp add: eval_nat_numeral)

lemma spring_times:
  "rfc3339 ''2025-03-15T10:00:00.000Z'' = Some 1742032800000000000"
  "rfc3339 ''2025-03-15T10:00:05.000Z'' = Some 1742032805000000000"
  "rfc3339 ''2025-03-17T10:00:00.000Z'' = Some 1742205600000000000"
  "rfc3339 ''2025-03-16T10:30:00.000Z'' = Some 1742121000000000000"
  by (simp_all add: rfc3339_eval replicate_6)

lemma fi_created_member: "fi_created (member file_id name created) = created"
  by (simp add: member_def)

lemma spring_world_time:
  "clock spring_world = 1744711200000000000" "time_Local spring_world = berlin_2025"
  by (simp_all add: spring_world_def zoned_world_def sweep_world_def)

text \<open>Thirty days back from 2025-04-15T12:00:00+02:00 the clock of Berlin shows
  2025-03-16T12:00:00+01:00: 30 times 24 hours less one hour.\<close>

lemma spring_cutoff: "AddDate_days berlin_2025 1744711200000000000 (- 30) = 1742122800000000000"
  by (simp add: AddDate_days_def berlin_2025_def Let_def)

text \<open>One day back from 2025-03-30T12:00:00+02:00, the day of the change, is
  2025-03-29T12:00:00+01:00: 23 hours.\<close>

lemma spring_forward_day:
  "AddDate_days berlin_2025 1743328800000000000 (- 1) = 1743328800000000000 - 23 * 3600 * 1000000000"
  by (simp add: AddDate_days_def berlin_2025_def Let_def)

lemma berlin_offsets: "\<forall>s s'. \<bar>fst (berlin_2025 s) - fst (berlin_2025 s')\<bar> < 86400"
  by (simp add: berlin_2025_def)

text \<open>In Berlin on 2025-04-15T10:00:00Z, with 30 days: the backup made 31 times 24 hours
  before is deleted.\<close>

theorem retention_decision_witness:
  "Files_List mem_srv retention_query
     (if ''root'' \<noteq> [] \<and> ''root'' \<noteq> ''root'' then Some ''root'' else None) (store spring_world)
   = (Inr spring_listing, drive_with spring_listing [])
   \<and> set (id (group_files spring_listing [])) = set (group_files spring_listing [])
   \<and> distinct (map Id_of spring_listing)
   \<and> (''v_2025-03-15T11:00:00+01:00'',
        [member ''a'' ''v_2025-03-15T11:00:00+01:00.tar.part001'' ''2025-03-15T10:00:00.000Z'',
         member ''b'' ''v_2025-03-15T11:00:00+01:00.tar.part002'' ''2025-03-15T10:00:05.000Z''])
       \<in> set (group_files spring_listing [])
   \<and> rfc3339 ''2025-03-15T10:00:00.000Z'' = Some 1742032800000000000
   \<and> rfc3339 ''2025-03-15T10:00:05.000Z'' = Some 1742032805000000000
   \<and> string_less ''2025-03-15T10:00:00.000Z'' ''2025-03-15T10:00:05.000Z''
   \<and> clock spring_world - 31 * day_ns = 1742032800000000000
   \<and> (\<forall>s s'. \<bar>fst (time_Local spring_world s) - fst (time_Local spring_world s')\<bar> < 86400)
   \<and> AddDate_days (time_Local spring_world) (clock spring_world) (- 30) = 1742122800000000000
   \<and> (\<exists>w'. cleanupOldBackups mem_srv rfc3339 id ''root'' 30 spring_world = (Inr (), w')
          \<and> ''a'' \<in> set (deleted_ids (new_events spring_world w'))
          \<and> ''b'' \<in> set (deleted_ids (new_events spring_world w')))"
proof -
  let ?g = "[member ''a'' ''v_2025-03-15T11:00:00+01:00.tar.part001'' ''2025-03-15T10:00:00.000Z'',
             member ''b'' ''v_2025-03-15T11:00:00+01:00.tar.part002'' ''2025-03-15T10:00:05.000Z'']"
  have h1: "Files_List mem_srv retention_query
     (if ''root'' \<noteq> [] \<and> ''root'' \<noteq> ''root'' then Some ''root'' else None) (store spring_world)
   = (Inr spring_listing, drive_with spring_listing [])"
    unfolding spring_world_def by (rule mem_list_zoned)
  have h2: "set (id (group_files spring_listing [])) = set (group_files spring_listing [])" by simp
  have h4: "(''v_2025-03-15T11:00:00+01:00'', ?g) \<in> set (group_files spring_listing [])"
    by (simp add: spring_groups)
  have h5: "\<forall>fi \<in> set ?g. rfc3339 (fi_created fi) \<noteq> None"
    by (simp add: fi_created_member spring_times)
  have sl: "string_less ''2025-03-15T10:00:00.000Z'' ''2025-03-15T10:00:05.000Z''" by simp
  have h6: "\<forall>a \<in> set ?g. \<forall>b \<in> set ?g.
              the (rfc3339 (fi_created a)) < the (rfc3339 (fi_created b))
              \<longrightarrow> string_less (fi_created a) (fi_created b)"
    using sl by (simp add: fi_created_member spring_times)
  have m: "Min ((\<lambda>fi. the (rfc3339 (fi_created fi))) ` set ?g) = clock spring_world - 31 * day_ns"
    by (simp add: fi_created_member spring_times spring_world_time day_ns_def)
  have d: "clock spring_world - 31 * day_ns = 1742032800000000000"
    by (simp add: spring_world_time day_ns_def)
  have z: "\<forall>s s'. \<bar>fst (time_Local spring_world s) - fst (time_Local spring_world s')\<bar> < 86400"
    unfolding spring_world_time by (rule berlin_offsets)
  have c: "AddDate_days (time_Local spring_world) (clock spring_world) (- 30) = 1742122800000000000"
    unfolding spring_world_time by (rule spring_cutoff)
  from retention_decision[where map_range = id and time_Parse = rfc3339 and retentionDays = 30,
       OF h1 h2 spring_distinct h4 h5 h6]
  obtain w' where
    run: "cleanupOldBackups mem_srv rfc3339 id ''root'' 30 spring_world = (Inr (), w')"
    and old: "(30::int) = 30
            \<and> Min ((\<lambda>fi. the (rfc3339 (fi_created fi))) ` set ?g) = clock spring_world - 31 * day_ns
            \<and> (\<forall>s s'. \<bar>fst (time_Local spring_world s) - fst (time_Local spring_world s')\<bar> < 86400)
            \<longrightarrow> (\<forall>fi \<in> set ?g. fi_id fi \<in> set (deleted_ids (new_events spring_world w')))"
    by (elim exE conjE) (rule that; assumption)
  have "\<forall>fi \<in> set ?g. fi_id fi \<in> set (deleted_ids (new_events spring_world w'))"
    using old m z by simp
  then have ab: "''a'' \<in> set (deleted_ids (new_events spring_world w'))"
    "''b'' \<in> set (deleted_ids (new_events spring_world w'))"
    by (simp_all add: fi_id_member)
  show ?thesis
    using h1 h2 spring_distinct h4 spring_times(1,2) sl d z c run ab by blast
qed

text \<open>The whole run in Berlin: the backup \<open>x\<close>, made 30 times 24 hours less half an hour
  before, is deleted too, since the cutoff is one hour later than 30 times 24 hours
  back; the backup \<open>w\<close>, made 29 times 24 hours before, is kept.\<close>

lemma spring_run:
  "fst (cleanupOldBackups mem_srv rfc3339 id ''root'' 30 spring_world) = Inr ()
   \<and> deleted_ids (new_events spring_world
        (snd (cleanupOldBackups mem_srv rfc3339 id ''root'' 30 spring_world))) = [''a'', ''b'', ''d'']"
proof -
  have h1: "Files_List mem_srv retention_query
     (if ''root'' \<noteq> [] \<and> ''root'' \<noteq> ''root'' then Some ''root'' else None) (store spring_world)
   = (Inr spring_listing, drive_with spring_listing [])"
    unfolding spring_world_def by (rule mem_list_zoned)
  have e: "elig_ids rfc3339 (AddDate_days (time_Local spring_world) (clock spring_world) (- 30)) 30
             (id (group_files spring_listing [])) = [''a'', ''b'', ''d'']"
    by (simp add: elig_ids_def spring_groups eligible_def group_time_def earliest_of_def
        fi_created_member spring_times spring_world_time spring_cutoff fi_id_member)
  show ?thesis
    using cleanup_deleted_ids[where ro = id and tp = rfc3339 and rd = 30, OF h1] e by simp
qed

lemma unparsed_groups:
  "group_files unparsed_listing [] =
     [(''u_2025-01-10T08:00:00Z'', [member ''x'' ''u_2025-01-10T08:00:00Z.tar.gz'' ''yesterday'']),
      (''w_2025-02-20T08:00:00Z'',
       [member ''c'' ''w_2025-02-20T08:00:00Z.tar.gz'' ''2025-02-20T08:00:00Z''])]"
  by (simp add: unparsed_listing_def remote_file_def member_def group_prefix_def Index_def)

lemma unparsed_time:
  "group_time rfc3339 [member ''x'' ''u_2025-01-10T08:00:00Z.tar.gz'' ''yesterday''] = None"
  by (simp add: group_time_def earliest_of_def member_def rfc3339_eval)

lemma unparsed_distinct: "distinct (map Id_of unparsed_listing)"
  by (simp add: unparsed_listing_def remote_file_def)

text \<open>Claim C5 as stated fails where the creation time does not parse: with
  \<open>retentionDays = 0\<close> the group \<open>u_2025-01-10T08:00:00Z\<close> is listed, and the only
  deletion attempted is that of \<open>c\<close>.\<close>

theorem retention_zero_counterexample:
  "fst (cleanupOldBackups mem_srv rfc3339 id ''root'' 0
          (sweep_world unparsed_listing [] 1740787200000000000)) = Inr ()
   \<and> (''u_2025-01-10T08:00:00Z'', [member ''x'' ''u_2025-01-10T08:00:00Z.tar.gz'' ''yesterday''])
       \<in> set (group_files unparsed_listing [])
   \<and> deleted_ids (new_events (sweep_world unparsed_listing [] 1740787200000000000)
        (snd (cleanupOldBackups mem_srv rfc3339 id ''root'' 0
               (sweep_world unparsed_listing [] 1740787200000000000)))) = [''c'']"
proof -
  have h1: "Files_List mem_srv retention_query
     (if ''root'' \<noteq> [] \<and> ''root'' \<noteq> ''root'' then Some ''root'' else None)
     (store (sweep_world unparsed_listing [] 1740787200000000000))
   = (Inr unparsed_listing, drive_with unparsed_listing [])"
    by (rule mem_list)
  have e: "elig_ids rfc3339 (AddDate_days (time_Local (sweep_world unparsed_listing [] 1740787200000000000)) (clock (sweep_world unparsed_listing [] 1740787200000000000)) (- 0)) 0
             (id (group_files unparsed_listing [])) = [''c'']"
    by (simp add: elig_ids_def unparsed_groups eligible_def unparsed_time demo_time_w fi_id_member)
  show ?thesis
    using cleanup_deleted_ids[where ro = id and tp = rfc3339 and rd = 0, OF h1] e
    by (simp add: unparsed_groups)
qed

text \<open>With \<open>retentionDays = 0\<close>: \<open>x\<close> is kept, \<open>c\<close> is deleted.\<close>

theorem unparsable_group_skipped_witness:
  "Files_List mem_srv retention_query
     (if ''root'' \<noteq> [] \<and> ''root'' \<noteq> ''root'' then Some ''root'' else None)
     (store (sweep_world unparsed_listing [] 1740787200000000000))
   = (Inr unparsed_listing, drive_with unparsed_listing [])
   \<and> set (id (group_files unparsed_listing [])) = set (group_files unparsed_listing [])
   \<and> distinct (map Id_of unparsed_listing)
   \<and> (''u_2025-01-10T08:00:00Z'', [member ''x'' ''u_2025-01-10T08:00:00Z.tar.gz'' ''yesterday''])
       \<in> set (group_files unparsed_listing [])
   \<and> group_time rfc3339 [member ''x'' ''u_2025-01-10T08:00:00Z.tar.gz'' ''yesterday''] = None
   \<and> (\<exists>w'. cleanupOldBackups mem_srv rfc3339 id ''root'' 0
               (sweep_world unparsed_listing [] 1740787200000000000) = (Inr (), w')
          \<and> ''x'' \<notin> set (deleted_ids (new_events (sweep_world unparsed_listing [] 1740787200000000000) w'))
          \<and> RetentionCouldNotParse ''u_2025-01-10T08:00:00Z'' \<in> set (logs w')
          \<and> ''c'' \<in> set (deleted_ids (new_events (sweep_world unparsed_listing [] 1740787200000000000) w')))"
proof -
  let ?g = "[member ''x'' ''u_2025-01-10T08:00:00Z.tar.gz'' ''yesterday'']"
  let ?gc = "[member ''c'' ''w_2025-02-20T08:00:00Z.tar.gz'' ''2025-02-20T08:00:00Z'']"
  let ?w = "sweep_world unparsed_listing [] 1740787200000000000"
  have h1: "Files_List mem_srv retention_query
     (if ''root'' \<noteq> [] \<and> ''root'' \<noteq> ''root'' then Some ''root'' else None) (store ?w)
   = (Inr unparsed_listing, drive_with unparsed_listing [])"
    by (rule mem_list)
  have h2: "set (id (group_files unparsed_listing [])) = set (group_files unparsed_listing [])" by simp
  have h4: "(''u_2025-01-10T08:00:00Z'', ?g) \<in> set (group_files unparsed_listing [])"
    by (simp add: unparsed_groups)
  have hc: "(''w_2025-02-20T08:00:00Z'', ?gc) \<in> set (group_files unparsed_listing [])"
    by (simp add: unparsed_groups)
  from unparsable_group_skipped[where map_range = id and time_Parse = rfc3339 and retentionDays = 0,
       OF h1 h2 unparsed_distinct h4 unparsed_time]
  obtain w' where
    run: "cleanupOldBackups mem_srv rfc3339 id ''root'' 0 ?w = (Inr (), w')"
    and a: "\<forall>fi \<in> set ?g. fi_id fi \<notin> set (deleted_ids (new_events ?w w'))"
    and b: "RetentionCouldNotParse ''u_2025-01-10T08:00:00Z'' \<in> set (logs w')"
    and c: "\<forall>(k', g') \<in> set (group_files unparsed_listing []). \<forall>t.
             group_time rfc3339 g' = Some t \<and> ((0::int) = 0 \<or> t < AddDate_days (time_Local ?w) (clock ?w) (- 0))
             \<longrightarrow> (\<forall>fi \<in> set g'. fi_id fi \<in> set (deleted_ids (new_events ?w w')))"
    by blast
  have x: "''x'' \<notin> set (deleted_ids (new_events ?w w'))"
    using a by (simp add: fi_id_member)
  have "\<forall>fi \<in> set ?gc. fi_id fi \<in> set (deleted_ids (new_events ?w w'))"
    using bspec[OF c hc] demo_time_w by simp
  then have cc: "''c'' \<in> set (deleted_ids (new_events ?w w'))"
    by (simp add: fi_id_member)
  show ?thesis using h1 h2 unparsed_distinct h4 unparsed_time run x b cc by blast
qed

lemma zones_groups:
  "group_files zones_listing [] =
     [(''v_2025-01-01T00:00:00Z'',
       [member ''a'' ''v_2025-01-01T00:00:00Z.tar.part001'' ''2025-01-01T10:00:00+09:00'',
        member ''b'' ''v_2025-01-01T00:00:00Z.tar.part002'' ''2025-01-01T02:00:00Z''])]"
  by (simp add: zones_listing_def remote_file_def member_def group_prefix_def Index_def)

text \<open>
  Claim C3 says that the creation time of a group is the earliest instant among its
  members. The code takes the member whose \<open>created\<close> string is the smallest and parses
  that one. Here part 1 was created at 10:00 in the zone \<open>+09:00\<close>, that is 01:00 UTC, and
  part 2 at 02:00 UTC; the smaller string is that of part 2. With the clock at
  2025-01-02T01:30:00Z and one day of retention the cutoff is 2025-01-01T01:30:00Z: the
  earliest instant is before it, the time the code uses is not, and nothing is deleted.
\<close>

theorem mixed_offsets_group_kept:
  "rfc3339 ''2025-01-01T10:00:00+09:00'' = Some 1735693200000000000
   \<and> rfc3339 ''2025-01-01T02:00:00Z'' = Some 1735696800000000000
   \<and> group_files zones_listing [] =
       [(''v_2025-01-01T00:00:00Z'',
         [member ''a'' ''v_2025-01-01T00:00:00Z.tar.part001'' ''2025-01-01T10:00:00+09:00'',
          member ''b'' ''v_2025-01-01T00:00:00Z.tar.part002'' ''2025-01-01T02:00:00Z''])]
   \<and> group_time rfc3339
        [member ''a'' ''v_2025-01-01T00:00:00Z.tar.part001'' ''2025-01-01T10:00:00+09:00'',
         member ''b'' ''v_2025-01-01T00:00:00Z.tar.part002'' ''2025-01-01T02:00:00Z'']
       = Some 1735696800000000000
   \<and> AddDate_days utc_location 1735781400000000000 (- 1) = 1735695000000000000
   \<and> deleted_ids (new_events (sweep_world zones_listing [] 1735781400000000000)
        (snd (cleanupOldBackups mem_srv rfc3339 id ''root'' 1
               (sweep_world zones_listing [] 1735781400000000000)))) = []"
proof -
  let ?w = "sweep_world zones_listing [] 1735781400000000000"
  have ra: "rfc3339 ''2025-01-01T10:00:00+09:00'' = Some 1735693200000000000"
    by (simp add: rfc3339_eval)
  have rb: "rfc3339 ''2025-01-01T02:00:00Z'' = Some 1735696800000000000"
    by (simp add: rfc3339_eval)
  have gt: "group_time rfc3339
        [member ''a'' ''v_2025-01-01T00:00:00Z.tar.part001'' ''2025-01-01T10:00:00+09:00'',
         member ''b'' ''v_2025-01-01T00:00:00Z.tar.part002'' ''2025-01-01T02:00:00Z'']
       = Some 1735696800000000000"
    by (simp add: group_time_def earliest_of_def member_def rb)
  have cut: "AddDate_days utc_location 1735781400000000000 (- 1) = 1735695000000000000"
    by (simp add: AddDate_days_utc day_ns_def)
  have h1: "Files_List mem_srv retention_query
     (if ''root'' \<noteq> [] \<and> ''root'' \<noteq> ''root'' then Some ''root'' else None) (store ?w)
   = (Inr zones_listing, drive_with zones_listing [])"
    by (rule mem_list)
  have e: "elig_ids rfc3339 (AddDate_days (time_Local ?w) (clock ?w) (- 1)) 1 (id (group_files zones_listing [])) = []"
    by (simp add: elig_ids_def zones_groups eligible_def gt sweep_world_time)
  show ?thesis
    using cleanup_deleted_ids[where ro = id and tp = rfc3339 and rd = 1, OF h1] e ra rb gt cut
    by (simp add: zones_groups)
qed

section \<open>Properties of the artifact partitioner\<close>

lemma digit_val_digit: "d < 10 \<Longrightarrow> digit_val (''0123456789'' ! d) = d"
proof -
  assume "d < 10"
  then have "d = 0 \<or> d = 1 \<or> d = 2 \<or> d = 3 \<or> d = 4 \<or> d = 5 \<or> d = 6 \<or> d = 7 \<or> d = 8 \<or> d = 9"
    by arith
  then show ?thesis by (elim disjE) (simp_all add: digit_val_def)
qed

lemma digits_val_snoc: "digits_val (xs @ [c]) = 10 * digits_val xs + digit_val c"
  by (simp add: digits_val_def)

lemma digits_val_itoa: "digits_val (itoa n) = n"
proof (induction n rule: itoa.induct)
  case (1 n)
  show ?case
  proof (cases "n < 10")
    case True
    then show ?thesis
      by (subst itoa.simps) (simp add: digits_val_def digit_val_digit)
  next
    case False
    have "digits_val (itoa n) = 10 * digits_val (itoa (n div 10)) + digit_val (''0123456789'' ! (n mod 10))"
      using False by (subst itoa.simps) (simp add: digits_val_snoc)
    also have "\<dots> = 10 * (n div 10) + n mod 10"
      using 1[OF False] by (simp add: digit_val_digit)
    finally show ?thesis by simp
  qed
qed

lemma digits_val_zeros: "digits_val (replicate k (CHR ''0'') @ s) = digits_val s"
proof -
  have "foldl (\<lambda>a c. 10 * a + digit_val c) 0 (replicate k (CHR ''0'')) = 0"
    by (induction k) (simp_all add: digit_val_def)
  then show ?thesis by (simp add: digits_val_def)
qed

lemma digits_val_pad3: "digits_val (pad3 n) = n"
  by (simp add: pad3_def digits_val_zeros digits_val_itoa)

lemma chunk_path_inj: "chunk_path d b m = chunk_path d b n \<Longrightarrow> m = n"
proof -
  assume "chunk_path d b m = chunk_path d b n"
  then have "pad3 m = pad3 n"
    by (simp add: chunk_path_def filepath_Join_def part_name_def)
  then have "digits_val (pad3 m) = digits_val (pad3 n)" by simp
  then show "m = n" by (simp add: digits_val_pad3)
qed


lemma split_step_any:
  "split_loop dir base C input n acc w =
     (let p = chunk_path dir base n;
          chunk = take (nat C) input;
          w2 = w\<lparr>files := (files w)(p \<mapsto> chunk)\<rparr>;
          cf = (if chunk \<noteq> [] then acc @ [p] else acc);
          w3 = (if chunk \<noteq> []
                then log_Printf (SplitCreatedChunk n p (int (length chunk))) w2
                else log_Printf (SplitSkippedEmptyChunk n) (w\<lparr>files := (files w)(p := None)\<rparr>))
      in if create_denied w p then Some (Inl (CreateChunkError p), w)
         else if copy_fails w p \<and> 0 < C
         then Some (Inl ReadInputError, w\<lparr>files := (files w)(p := None)\<rparr>)
         else if int (length chunk) < C then Some (Inr cf, w3)
         else split_loop dir base C (drop (nat C) input) (n + 1) cf w3)"
  by (subst split_loop.simps)
     (simp add: chunk_path_def os_Create_def io_CopyN_def os_Remove_def Let_def log_Printf_def)

lemma split_step:
  assumes ok: "\<not> create_denied w (chunk_path dir base n)" "\<not> copy_fails w (chunk_path dir base n)"
  shows "split_loop dir base C input n acc w =
     (let p = chunk_path dir base n;
          chunk = take (nat C) input;
          w2 = w\<lparr>files := (files w)(p \<mapsto> chunk)\<rparr>;
          cf = (if chunk \<noteq> [] then acc @ [p] else acc);
          w3 = (if chunk \<noteq> []
                then log_Printf (SplitCreatedChunk n p (int (length chunk))) w2
                else log_Printf (SplitSkippedEmptyChunk n) (w\<lparr>files := (files w)(p := None)\<rparr>))
      in if int (length chunk) < C then Some (Inr cf, w3)
         else split_loop dir base C (drop (nat C) input) (n + 1) cf w3)"
  using ok by (subst split_step_any) (simp add: Let_def)

lemma parts_count_pos: "0 < c \<Longrightarrow> 0 < len \<Longrightarrow> parts_count len c = Suc ((len - 1) div c)"
proof -
  assume c: "0 < c" and l: "0 < len"
  have "len + c - 1 = (len - 1) + c" using l by arith
  then have "(len + c - 1) div c = ((len - 1) + c) div c" by (simp only:)
  also have "\<dots> = Suc ((len - 1) div c)" using c by (simp add: div_add_self2)
  finally show ?thesis by (simp only: parts_count_def)
qed

lemma parts_count_small: "0 < c \<Longrightarrow> len < c \<Longrightarrow> parts_count len c = (if len = 0 then 0 else 1)"
proof (cases "len = 0")
  case True
  assume "0 < c"
  then show ?thesis using True by (simp add: parts_count_def)
next
  case False
  assume c: "0 < c" and l: "len < c"
  have "(len - 1) div c = 0" using l by simp
  then show ?thesis using parts_count_pos[OF c] False by simp
qed

lemma parts_count_step: "0 < c \<Longrightarrow> c \<le> len \<Longrightarrow> parts_count len c = Suc (parts_count (len - c) c)"
proof -
  assume c: "0 < c" and l: "c \<le> len"
  have a: "parts_count len c = Suc ((len - 1) div c)" using parts_count_pos[OF c] c l by simp
  have "len - c + c - 1 = len - 1" using l by arith
  then have "parts_count (len - c) c = (len - 1) div c" by (simp only: parts_count_def)
  then show ?thesis using a by simp
qed

lemma split_loop_ok:
  assumes C: "0 < C"
    and ok: "\<forall>j. \<not> create_denied w (chunk_path dir base j) \<and> \<not> copy_fails w (chunk_path dir base j)"
  shows "\<exists>w'. split_loop dir base C input n acc w
            = Some (Inr (acc @ map (chunk_path dir base) [n ..< n + parts_count (length input) (nat C)]), w')
       \<and> (\<forall>i < parts_count (length input) (nat C).
             files w' (chunk_path dir base (n + i)) = Some (take (nat C) (drop (i * nat C) input)))
       \<and> (length input mod nat C = 0
            \<longrightarrow> files w' (chunk_path dir base (n + length input div nat C)) = None)
       \<and> (\<forall>p. (\<forall>j \<ge> n. p \<noteq> chunk_path dir base j) \<longrightarrow> files w' p = files w p)
       \<and> create_denied w' = create_denied w \<and> copy_fails w' = copy_fails w
       \<and> env w' = env w \<and> store w' = store w \<and> trace w' = trace w \<and> clock w' = clock w"
  using ok
proof (induction "length input" arbitrary: input n acc w rule: less_induct)
  case less
  let ?c = "nat C"
  have c: "0 < ?c" "int ?c = C" using C by simp_all
  let ?p = "chunk_path dir base n"
  let ?chunk = "take ?c input"
  have okn: "\<not> create_denied w ?p" "\<not> copy_fails w ?p" using less.prems by simp_all
  note step = split_step[OF okn, of C input acc, unfolded Let_def]
  show ?case
  proof (cases "length input < ?c")
    case True
    then have chunk: "?chunk = input" by simp
    have lt: "int (length input) < C" using True c by linarith
    show ?thesis
    proof (cases "input = []")
      case True
      let ?w' = "log_Printf (SplitSkippedEmptyChunk n) (w\<lparr>files := (files w)(?p := None)\<rparr>)"
      have r: "split_loop dir base C input n acc w = Some (Inr acc, ?w')"
        using step True C by simp
      have pc: "parts_count (length input) ?c = 0"
        using parts_count_small[OF c(1) \<open>length input < ?c\<close>] True by simp
      have A: "split_loop dir base C input n acc w
            = Some (Inr (acc @ map (chunk_path dir base) [n ..< n + parts_count (length input) ?c]), ?w')"
        unfolding r pc by simp
      have B: "\<forall>i < parts_count (length input) ?c.
             files ?w' (chunk_path dir base (n + i)) = Some (take ?c (drop (i * ?c) input))"
        unfolding pc by simp
      have Cc: "length input mod ?c = 0
            \<longrightarrow> files ?w' (chunk_path dir base (n + length input div ?c)) = None"
        using True by (simp add: log_Printf_def)
      have D: "\<forall>p. (\<forall>j \<ge> n. p \<noteq> chunk_path dir base j) \<longrightarrow> files ?w' p = files w p"
      proof (intro allI impI)
        fix p assume p: "\<forall>j \<ge> n. p \<noteq> chunk_path dir base j"
        have "p \<noteq> ?p" using spec[OF p, of n] by simp
        then show "files ?w' p = files w p" by (simp add: log_Printf_def)
      qed
      have E: "create_denied ?w' = create_denied w" "copy_fails ?w' = copy_fails w"
        "env ?w' = env w" "store ?w' = store w" "trace ?w' = trace w" "clock ?w' = clock w"
        by (simp_all add: log_Printf_def)
      show ?thesis by (intro exI[of _ ?w'] conjI A B Cc D E)
    next
      case False
      let ?w' = "log_Printf (SplitCreatedChunk n ?p (int (length input)))
                   (w\<lparr>files := (files w)(?p \<mapsto> input)\<rparr>)"
      have r: "split_loop dir base C input n acc w = Some (Inr (acc @ [?p]), ?w')"
        using step False lt chunk by simp
      have pc: "parts_count (length input) ?c = 1"
        using parts_count_small[OF c(1) \<open>length input < ?c\<close>] False by simp
      have A: "split_loop dir base C input n acc w
            = Some (Inr (acc @ map (chunk_path dir base) [n ..< n + parts_count (length input) ?c]), ?w')"
        unfolding r pc by simp
      have B: "\<forall>i < parts_count (length input) ?c.
             files ?w' (chunk_path dir base (n + i)) = Some (take ?c (drop (i * ?c) input))"
        unfolding pc using chunk by (simp add: log_Printf_def)
      have Cc: "length input mod ?c = 0
            \<longrightarrow> files ?w' (chunk_path dir base (n + length input div ?c)) = None"
        using \<open>length input < ?c\<close> False by simp
      have D: "\<forall>p. (\<forall>j \<ge> n. p \<noteq> chunk_path dir base j) \<longrightarrow> files ?w' p = files w p"
      proof (intro allI impI)
        fix p assume p: "\<forall>j \<ge> n. p \<noteq> chunk_path dir base j"
        have "p \<noteq> ?p" using spec[OF p, of n] by simp
        then show "files ?w' p = files w p" by (simp add: log_Printf_def)
      qed
      have E: "create_denied ?w' = create_denied w" "copy_fails ?w' = copy_fails w"
        "env ?w' = env w" "store ?w' = store w" "trace ?w' = trace w" "clock ?w' = clock w"
        by (simp_all add: log_Printf_def)
      show ?thesis by (intro exI[of _ ?w'] conjI A B Cc D E)
    qed
  next
    case False
    then have ge: "?c \<le> length input" by simp
    have len: "length ?chunk = ?c" using ge by simp
    have ne: "?chunk \<noteq> []" using len c by auto
    let ?w3 = "log_Printf (SplitCreatedChunk n ?p (int (length ?chunk)))
                 (w\<lparr>files := (files w)(?p \<mapsto> ?chunk)\<rparr>)"
    let ?input' = "drop ?c input"
    have rec: "split_loop dir base C input n acc w
               = split_loop dir base C ?input' (n + 1) (acc @ [?p]) ?w3"
      using step ne len c by simp
    have shorter: "length ?input' < length input" using ge c by simp
    have ok3: "\<forall>j. \<not> create_denied ?w3 (chunk_path dir base j) \<and> \<not> copy_fails ?w3 (chunk_path dir base j)"
      using less.prems by (simp add: log_Printf_def)
    let ?m' = "parts_count (length ?input') ?c"
    from less.hyps[OF shorter ok3, of "n + 1" "acc @ [?p]"] obtain w' where
      a: "split_loop dir base C ?input' (n + 1) (acc @ [?p]) ?w3
            = Some (Inr ((acc @ [?p]) @ map (chunk_path dir base) [n + 1 ..< n + 1 + ?m']), w')"
      and b: "\<forall>i < ?m'. files w' (chunk_path dir base (n + 1 + i))
                = Some (take ?c (drop (i * ?c) ?input'))"
      and cc: "length ?input' mod ?c = 0
            \<longrightarrow> files w' (chunk_path dir base (n + 1 + length ?input' div ?c)) = None"
      and d: "\<forall>p. (\<forall>j \<ge> n + 1. p \<noteq> chunk_path dir base j) \<longrightarrow> files w' p = files ?w3 p"
      and e: "create_denied w' = create_denied ?w3" "copy_fails w' = copy_fails ?w3"
        "env w' = env ?w3" "store w' = store ?w3" "trace w' = trace ?w3" "clock w' = clock ?w3"
      by (elim exE conjE) (rule that; assumption)
    have pc: "parts_count (length input) ?c = Suc ?m'"
      using parts_count_step[OF c(1) ge] by simp
    have A: "split_loop dir base C input n acc w
            = Some (Inr (acc @ map (chunk_path dir base) [n ..< n + parts_count (length input) ?c]), w')"
    proof -
      have "[n ..< n + Suc ?m'] = n # [n + 1 ..< n + 1 + ?m']"
        by (subst upt_rec) simp
      then show ?thesis unfolding rec a pc by simp
    qed
    have pn: "files w' ?p = Some ?chunk"
    proof -
      have "\<forall>j \<ge> n + 1. ?p \<noteq> chunk_path dir base j"
      proof (intro allI impI notI)
        fix j assume "n + 1 \<le> j" "?p = chunk_path dir base j"
        then show False using chunk_path_inj[of dir base n j] by simp
      qed
      then have "files w' ?p = files ?w3 ?p" using spec[OF d, of ?p] by simp
      then show ?thesis by (simp add: log_Printf_def)
    qed
    have B: "\<forall>i < parts_count (length input) ?c.
             files w' (chunk_path dir base (n + i)) = Some (take ?c (drop (i * ?c) input))"
    proof (intro allI impI)
      fix i assume i: "i < parts_count (length input) ?c"
      show "files w' (chunk_path dir base (n + i)) = Some (take ?c (drop (i * ?c) input))"
      proof (cases i)
        case 0
        then show ?thesis using pn by simp
      next
        case (Suc i')
        then have "i' < ?m'" using i pc by simp
        then have "files w' (chunk_path dir base (n + 1 + i')) = Some (take ?c (drop (i' * ?c) ?input'))"
          using spec[OF b, of i'] by simp
        then show ?thesis by (simp add: Suc add.commute)
      qed
    qed
    have Cc: "length input mod ?c = 0
            \<longrightarrow> files w' (chunk_path dir base (n + length input div ?c)) = None"
    proof
      assume z: "length input mod ?c = 0"
      have "length ?input' mod ?c = 0" using z ge by (simp add: le_mod_geq)
      then have "files w' (chunk_path dir base (n + 1 + length ?input' div ?c)) = None"
        using cc by simp
      moreover have "length input div ?c = Suc (length ?input' div ?c)"
        using ge c by (simp add: le_div_geq)
      ultimately show "files w' (chunk_path dir base (n + length input div ?c)) = None"
        by simp
    qed
    have D: "\<forall>p. (\<forall>j \<ge> n. p \<noteq> chunk_path dir base j) \<longrightarrow> files w' p = files w p"
    proof (intro allI impI)
      fix p assume p: "\<forall>j \<ge> n. p \<noteq> chunk_path dir base j"
      then have "files w' p = files ?w3 p" using spec[OF d, of p] by simp
      moreover have "p \<noteq> ?p" using spec[OF p, of n] by simp
      ultimately show "files w' p = files w p" by (simp add: log_Printf_def)
    qed
    have E: "create_denied w' = create_denied w" "copy_fails w' = copy_fails w"
        "env w' = env w" "store w' = store w" "trace w' = trace w" "clock w' = clock w"
      using e by (simp_all add: log_Printf_def)
    show ?thesis by (intro exI[of _ w'] conjI A B Cc D E)
  qed
qed

lemma div_mult_add_small: "d < c \<Longrightarrow> (c * k + d) div c = (k::nat)"
  by simp

lemma parts_count_alt:
  assumes c: "0 < c"
  shows "parts_count len c = (if len mod c = 0 then len div c else len div c + 1)"
proof (cases "len = 0")
  case True
  then show ?thesis using c by (simp add: parts_count_def)
next
  case False
  define q r where "q = len div c" and "r = len mod c"
  have len: "len = c * q + r" and r: "r < c" using c by (simp_all add: q_def r_def)
  have pc: "parts_count len c = Suc ((len - 1) div c)"
    using parts_count_pos[OF c] False by simp
  show ?thesis
  proof (cases "r = 0")
    case True
    then have q: "0 < q" using len False by (cases q) simp_all
    have "len - 1 = c * (q - 1) + (c - 1)"
    proof -
      have "c * q = c * (q - 1) + c" using q by (cases q) simp_all
      then show ?thesis using len True c by simp
    qed
    then have "(len - 1) div c = (c * (q - 1) + (c - 1)) div c" by (simp only:)
    also have "\<dots> = q - 1" using c by (intro div_mult_add_small) simp
    finally show ?thesis using pc q True by (simp add: q_def r_def)
  next
    case False
    have "len - 1 = c * q + (r - 1)" using len False by simp
    then have "(len - 1) div c = (c * q + (r - 1)) div c" by (simp only:)
    also have "\<dots> = q" using r by (intro div_mult_add_small) simp
    finally show ?thesis using pc False by (simp add: q_def r_def)
  qed
qed

lemma split_loop_any:
  assumes C: "0 < C"
  shows "\<exists>r w'. split_loop dir base C input n acc w = Some (r, w')
       \<and> trace w' = trace w \<and> store w' = store w \<and> env w' = env w
       \<and> (\<forall>cf. r = Inr cf \<longrightarrow>
             cf = acc @ map (chunk_path dir base) [n ..< n + parts_count (length input) (nat C)])"
proof (induction "length input" arbitrary: input n acc w rule: less_induct)
  case less
  let ?c = "nat C"
  have c: "0 < ?c" "int ?c = C" using C by simp_all
  let ?p = "chunk_path dir base n"
  let ?chunk = "take ?c input"
  note step = split_step_any[of dir base C input n acc w, unfolded Let_def]
  consider (denied) "create_denied w ?p" | (fails) "\<not> create_denied w ?p" "copy_fails w ?p"
    | (short) "\<not> create_denied w ?p" "\<not> copy_fails w ?p" "length input < ?c"
    | (full) "\<not> create_denied w ?p" "\<not> copy_fails w ?p" "?c \<le> length input"
    by linarith
  then show ?case
  proof cases
    case denied
    then show ?thesis using step by simp
  next
    case fails
    then show ?thesis using step C by simp
  next
    case short
    then have lt: "int (length ?chunk) < C" using c by simp
    have pc: "parts_count (length input) ?c = (if input = [] then 0 else 1)"
      using parts_count_small[OF c(1) short(3)] by simp
    show ?thesis
    proof (cases "input = []")
      case True
      then show ?thesis using step short lt pc by (simp add: log_Printf_def)
    next
      case False
      then have "?chunk \<noteq> []" using c by simp
      then show ?thesis using step short lt pc False by (simp add: log_Printf_def)
    qed
  next
    case full
    have len: "length ?chunk = ?c" using full(3) by simp
    have ne: "?chunk \<noteq> []" using len c by auto
    let ?w3 = "log_Printf (SplitCreatedChunk n ?p (int (length ?chunk)))
                 (w\<lparr>files := (files w)(?p \<mapsto> ?chunk)\<rparr>)"
    let ?input' = "drop ?c input"
    have rec: "split_loop dir base C input n acc w
               = split_loop dir base C ?input' (n + 1) (acc @ [?p]) ?w3"
      using step ne len c full by simp
    have shorter: "length ?input' < length input" using full(3) c by simp
    from less[OF shorter, of "n + 1" "acc @ [?p]" ?w3] obtain r w' where
      a: "split_loop dir base C ?input' (n + 1) (acc @ [?p]) ?w3 = Some (r, w')"
      and t: "trace w' = trace ?w3" "store w' = store ?w3" "env w' = env ?w3"
      and cf: "\<forall>cf. r = Inr cf \<longrightarrow>
             cf = (acc @ [?p]) @ map (chunk_path dir base)
                    [n + 1 ..< n + 1 + parts_count (length ?input') ?c]"
      by (elim exE conjE) (rule that; assumption)
    have pc: "parts_count (length input) ?c = Suc (parts_count (length ?input') ?c)"
      using parts_count_step[OF c(1) full(3)] by simp
    have u: "[n ..< n + Suc (parts_count (length ?input') ?c)]
             = n # [n + 1 ..< n + 1 + parts_count (length ?input') ?c]"
      by (subst upt_rec) simp
    have A: "split_loop dir base C input n acc w = Some (r, w')" unfolding rec a ..
    have T: "trace w' = trace w" "store w' = store w" "env w' = env w"
      using t by (simp_all add: log_Printf_def)
    have D: "\<forall>cf. r = Inr cf \<longrightarrow>
             cf = acc @ map (chunk_path dir base) [n ..< n + parts_count (length input) ?c]"
      using cf unfolding pc u by simp
    show ?thesis by (intro exI[of _ r] exI[of _ w'] conjI A T D)
  qed
qed


lemma chunk_length:
  assumes c: "0 < c" and i: "i < parts_count (length content) c"
  shows "(Suc i < parts_count (length content) c \<longrightarrow> length (take c (drop (i * c) content)) = c)
       \<and> 0 < length (take c (drop (i * c) content))
       \<and> length (take c (drop (i * c) content)) \<le> c"
proof -
  let ?len = "length content"
  let ?k = "(?len - 1) div c"
  have pos: "0 < ?len"
  proof (rule ccontr)
    assume "\<not> 0 < ?len"
    then have "parts_count ?len c = 0" using c by (simp add: parts_count_def)
    then show False using i by simp
  qed
  have pc: "parts_count ?len c = Suc ?k" using parts_count_pos[OF c pos] .
  have lo: "?k * c \<le> ?len - 1" by simp
  have ik: "i \<le> ?k" using i pc by simp
  then have "i * c \<le> ?k * c" by simp
  then have ic: "i * c < ?len" using lo pos by linarith
  have full: "length (take c (drop (i * c) content)) = c" if "Suc i < parts_count ?len c"
  proof -
    have "Suc i \<le> ?k" using that pc by simp
    then have "Suc i * c \<le> ?k * c" by (rule mult_le_mono1)
    moreover have "Suc i * c = i * c + c" by simp
    ultimately have "i * c + c \<le> ?len" using lo pos by linarith
    then show ?thesis by simp
  qed
  show ?thesis using full ic c by simp
qed

text \<open>
  Claim C4. For an archive of \<open>S\<close> bytes and a split size \<open>c\<close> with \<open>0 < c < S\<close>, when no
  part file fails to be created or written (and no part path is the path of the archive
  itself), \<open>splitFile\<close> returns; it returns \<open>S / c\<close> parts when \<open>c\<close> divides \<open>S\<close> and
  \<open>S / c + 1\<close> parts otherwise; part \<open>i\<close> is the file \<open>baseName.partNNN\<close> of number \<open>i\<close>
  and holds the bytes from \<open>(i - 1) * c\<close> on, \<open>c\<close> of them for every part but the last
  and between 1 and \<open>c\<close> for the last; and when \<open>c\<close> divides \<open>S\<close> the file of the next
  number, which would be empty, is neither returned nor left on disk.
\<close>

theorem splitFile_partition:
  assumes "0 < c" and "files w inputPath = Some content" and "c < length content"
    and "\<forall>j. \<not> create_denied w (chunk_path outputDir baseName j)
             \<and> \<not> copy_fails w (chunk_path outputDir baseName j)"
    and "\<forall>j. inputPath \<noteq> chunk_path outputDir baseName j"
  shows "\<exists>parts w'. splitFile w inputPath outputDir baseName (int c) = Some (Inr parts, w')
       \<and> length parts = (if length content mod c = 0 then length content div c
                         else length content div c + 1)
       \<and> (\<forall>i < length parts.
             parts ! i = chunk_path outputDir baseName (Suc i)
             \<and> files w' (parts ! i) = Some (take c (drop (i * c) content))
             \<and> (Suc i < length parts \<longrightarrow> length (take c (drop (i * c) content)) = c)
             \<and> 0 < length (take c (drop (i * c) content))
             \<and> length (take c (drop (i * c) content)) \<le> c)
       \<and> (length content mod c = 0
            \<longrightarrow> chunk_path outputDir baseName (Suc (length parts)) \<notin> set parts
              \<and> files w' (chunk_path outputDir baseName (Suc (length parts))) = None)
       \<and> files w' inputPath = Some content"
proof -
  let ?m = "parts_count (length content) c"
  let ?path = "chunk_path outputDir baseName"
  have C: "0 < int c" "nat (int c) = c" using assms(1) by simp_all
  from split_loop_ok[OF C(1) assms(4), of content 1 "[]", unfolded C(2)] obtain w' where
    run: "split_loop outputDir baseName (int c) content 1 [] w
            = Some (Inr ([] @ map ?path [1 ..< 1 + ?m]), w')"
    and fs: "\<forall>i < ?m. files w' (?path (1 + i)) = Some (take c (drop (i * c) content))"
    and last: "length content mod c = 0 \<longrightarrow> files w' (?path (1 + length content div c)) = None"
    and frame: "\<forall>p. (\<forall>j \<ge> 1. p \<noteq> ?path j) \<longrightarrow> files w' p = files w p"
    by (elim exE conjE) (rule that; assumption)
  let ?parts = "map ?path [1 ..< 1 + ?m]"
  have len: "length ?parts = ?m" by (simp del: upt_Suc)
  have alt: "?m = (if length content mod c = 0 then length content div c else length content div c + 1)"
    by (rule parts_count_alt[OF assms(1)])
  have A: "splitFile w inputPath outputDir baseName (int c) = Some (Inr ?parts, w')"
    using run assms(2) by (simp add: splitFile_def os_Open_def)
  have B: "length ?parts = (if length content mod c = 0 then length content div c
                            else length content div c + 1)"
    using alt by simp
  have P: "\<forall>i < length ?parts.
             ?parts ! i = ?path (Suc i)
             \<and> files w' (?parts ! i) = Some (take c (drop (i * c) content))
             \<and> (Suc i < length ?parts \<longrightarrow> length (take c (drop (i * c) content)) = c)
             \<and> 0 < length (take c (drop (i * c) content))
             \<and> length (take c (drop (i * c) content)) \<le> c"
  proof (intro allI impI)
    fix i assume "i < length ?parts"
    then have i: "i < ?m" unfolding len .
    have n: "?parts ! i = ?path (Suc i)" using i by (simp del: upt_Suc)
    have f: "files w' (?path (Suc i)) = Some (take c (drop (i * c) content))"
      using spec[OF fs, of i] i by simp
    show "?parts ! i = ?path (Suc i)
             \<and> files w' (?parts ! i) = Some (take c (drop (i * c) content))
             \<and> (Suc i < length ?parts \<longrightarrow> length (take c (drop (i * c) content)) = c)
             \<and> 0 < length (take c (drop (i * c) content))
             \<and> length (take c (drop (i * c) content)) \<le> c"
      unfolding n len using f chunk_length[OF assms(1) i] by simp
  qed
  have Z: "length content mod c = 0
            \<longrightarrow> ?path (Suc (length ?parts)) \<notin> set ?parts
              \<and> files w' (?path (Suc (length ?parts))) = None"
  proof
    assume z: "length content mod c = 0"
    then have m: "?m = length content div c" using alt by simp
    have "?path (Suc ?m) \<notin> set ?parts"
    proof
      assume "?path (Suc ?m) \<in> set ?parts"
      then obtain j where "j < 1 + ?m" "?path (Suc ?m) = ?path j" by (auto simp del: upt_Suc)
      then show False using chunk_path_inj[of outputDir baseName "Suc ?m" j] by simp
    qed
    moreover have "files w' (?path (Suc ?m)) = None" using last z m by simp
    ultimately show "?path (Suc (length ?parts)) \<notin> set ?parts
              \<and> files w' (?path (Suc (length ?parts))) = None"
      unfolding len by simp
  qed
  have I: "files w' inputPath = Some content"
    using spec[OF frame, of inputPath] assms(5,2) by simp
  show ?thesis by (intro exI[of _ ?parts] exI[of _ w'] conjI A B P Z I)
qed

lemma pads: "pad3 (Suc 0) = ''001''" "pad3 (Suc (Suc 0)) = ''002''" "pad3 (Suc (Suc (Suc 0))) = ''003''"
  by (simp_all add: pad3_def itoa.simps numeral_2_eq_2)

lemma archive_not_a_part: "archive_path \<noteq> chunk_path tmpDir ''v_2025-01-01T00:00:00Z.tar'' j"
  by (simp add: archive_path_def chunk_path_def tmpDir_def filepath_Join_def part_name_def)

text \<open>Eight bytes cut every four: two parts of four bytes, and no third file.\<close>

theorem splitFile_partition_witness:
  "(0::nat) < 4
   \<and> files (upload_world ''abcdefgh'' [] []) archive_path = Some ''abcdefgh''
   \<and> 4 < length ''abcdefgh''
   \<and> (\<forall>j. \<not> create_denied (upload_world ''abcdefgh'' [] []) (chunk_path tmpDir ''v_2025-01-01T00:00:00Z.tar'' j)
          \<and> \<not> copy_fails (upload_world ''abcdefgh'' [] []) (chunk_path tmpDir ''v_2025-01-01T00:00:00Z.tar'' j))
   \<and> (\<forall>j. archive_path \<noteq> chunk_path tmpDir ''v_2025-01-01T00:00:00Z.tar'' j)
   \<and> (\<exists>parts w'. splitFile (upload_world ''abcdefgh'' [] []) archive_path tmpDir
                     ''v_2025-01-01T00:00:00Z.tar'' (int 4) = Some (Inr parts, w')
          \<and> parts = [''/app/backup/tmp/v_2025-01-01T00:00:00Z.tar.part001'',
                      ''/app/backup/tmp/v_2025-01-01T00:00:00Z.tar.part002'']
          \<and> files w' ''/app/backup/tmp/v_2025-01-01T00:00:00Z.tar.part001'' = Some ''abcd''
          \<and> files w' ''/app/backup/tmp/v_2025-01-01T00:00:00Z.tar.part002'' = Some ''efgh''
          \<and> files w' ''/app/backup/tmp/v_2025-01-01T00:00:00Z.tar.part003'' = None)"
proof -
  let ?w = "upload_world ''abcdefgh'' [] []"
  let ?b = "''v_2025-01-01T00:00:00Z.tar''"
  have h1: "(0::nat) < 4" by simp
  have h2: "files ?w archive_path = Some ''abcdefgh''" by (simp add: upload_world_def)
  have h3: "4 < length ''abcdefgh''" by simp
  have h4: "\<forall>j. \<not> create_denied ?w (chunk_path tmpDir ?b j) \<and> \<not> copy_fails ?w (chunk_path tmpDir ?b j)"
    by (simp add: upload_world_def)
  have h5: "\<forall>j. archive_path \<noteq> chunk_path tmpDir ?b j" using archive_not_a_part by simp
  have p: "chunk_path tmpDir ?b (Suc 0) = ''/app/backup/tmp/v_2025-01-01T00:00:00Z.tar.part001''"
    "chunk_path tmpDir ?b (Suc (Suc 0)) = ''/app/backup/tmp/v_2025-01-01T00:00:00Z.tar.part002''"
    "chunk_path tmpDir ?b (Suc (Suc (Suc 0))) = ''/app/backup/tmp/v_2025-01-01T00:00:00Z.tar.part003''"
    by (simp_all add: chunk_path_def tmpDir_def filepath_Join_def part_name_def pads)
  from splitFile_partition[OF h1 h2 h3 h4 h5] obtain parts w' where
    run: "splitFile ?w archive_path tmpDir ?b (int 4) = Some (Inr parts, w')"
    and len: "length parts = (if length ''abcdefgh'' mod 4 = 0 then length ''abcdefgh'' div 4
                              else length ''abcdefgh'' div 4 + 1)"
    and each: "\<forall>i < length parts.
             parts ! i = chunk_path tmpDir ?b (Suc i)
             \<and> files w' (parts ! i) = Some (take 4 (drop (i * 4) ''abcdefgh''))
             \<and> (Suc i < length parts \<longrightarrow> length (take 4 (drop (i * 4) ''abcdefgh'')) = 4)
             \<and> 0 < length (take 4 (drop (i * 4) ''abcdefgh''))
             \<and> length (take 4 (drop (i * 4) ''abcdefgh'')) \<le> 4"
    and empty: "length ''abcdefgh'' mod 4 = 0
            \<longrightarrow> chunk_path tmpDir ?b (Suc (length parts)) \<notin> set parts
              \<and> files w' (chunk_path tmpDir ?b (Suc (length parts))) = None"
    by (elim exE conjE) (rule that; assumption)
  have l2: "length parts = 2" using len by simp
  have a0: "parts ! 0 = ''/app/backup/tmp/v_2025-01-01T00:00:00Z.tar.part001''
            \<and> files w' (parts ! 0) = Some ''abcd''"
    using spec[OF each, of 0] l2 p by auto
  have a1: "parts ! 1 = ''/app/backup/tmp/v_2025-01-01T00:00:00Z.tar.part002''
            \<and> files w' (parts ! 1) = Some ''efgh''"
    using spec[OF each, of 1] l2 p by auto
  have e0: "parts ! 0 = ''/app/backup/tmp/v_2025-01-01T00:00:00Z.tar.part001''"
    and e1: "parts ! 1 = ''/app/backup/tmp/v_2025-01-01T00:00:00Z.tar.part002''"
    using a0 a1 by simp_all
  have f0: "files w' ''/app/backup/tmp/v_2025-01-01T00:00:00Z.tar.part001'' = Some ''abcd''"
    using a0 by auto
  have f1: "files w' ''/app/backup/tmp/v_2025-01-01T00:00:00Z.tar.part002'' = Some ''efgh''"
    using a1 by auto
  have ps: "parts = [''/app/backup/tmp/v_2025-01-01T00:00:00Z.tar.part001'',
                      ''/app/backup/tmp/v_2025-01-01T00:00:00Z.tar.part002'']"
    using l2 e0 e1 by (cases parts; cases "tl parts") auto
  have f3: "files w' ''/app/backup/tmp/v_2025-01-01T00:00:00Z.tar.part003'' = None"
  proof -
    have "chunk_path tmpDir ?b 3 = ''/app/backup/tmp/v_2025-01-01T00:00:00Z.tar.part003''"
      using p(3) by (simp add: numeral_3_eq_3)
    then show ?thesis using empty l2 by auto
  qed
  show ?thesis
    using h1 h2 h3 h4 h5 run ps f0 f1 f3 by blast
qed


section \<open>Properties of the upload coordinator\<close>

lemma env_size_frame:
  "env_size ops var warn w = (v, w') \<Longrightarrow>
     trace w' = trace w \<and> store w' = store w \<and> files w' = files w \<and> env w' = env w
     \<and> create_denied w' = create_denied w \<and> copy_fails w' = copy_fails w"
  by (auto simp: env_size_def Let_def log_Printf_def split: if_splits sum.splits)

lemma trace_after_remove:
  "trace (case os_Remove w p of (False, w') \<Rightarrow> log_Printf a w' | (True, w') \<Rightarrow> log_Printf b w')
   = trace w"
  by (simp add: os_Remove_def log_Printf_def split: option.splits)

lemma upload_loop_Cons:
  assumes "upload_loop srv ops parentID count names i (path # rest) ids w = (r, w')"
  shows "(length names \<le> i \<and> r = Inl IndexOutOfRange \<and> w' = w)
       \<or> (i < length names \<and> r = Inl (OpenFileError path) \<and> w' = w)
       \<or> (i < length names \<and> (\<exists>f media err.
              trace w' = trace w @ [Created (names ! i)
                    (if parentID \<noteq> [] then [parentID] else [''root'']) f media (Inl err)]
              \<and> r = Inl (UploadError (names ! i) err)))
       \<or> (i < length names \<and> (\<exists>f media new_id w4.
              trace w4 = trace w @ [Created (names ! i)
                    (if parentID \<noteq> [] then [parentID] else [''root'']) f media (Inr new_id)]
              \<and> upload_loop srv ops parentID count names (Suc i) rest (ids @ [new_id]) w4 = (r, w')))"
proof (cases "length names \<le> i")
  case True
  then show ?thesis using assms by simp
next
  case False
  then have i: "i < length names" by simp
  show ?thesis
  proof (cases "os_Open w path")
    case None
    then show ?thesis using assms i by simp
  next
    case (Some f)
    obtain chunkSize w1 where es: "env_size ops ''UPLOAD_CHUNK_SIZE'' WarnInvalidChunkSize w = (chunkSize, w1)"
      by (cases "env_size ops ''UPLOAD_CHUNK_SIZE'' WarnInvalidChunkSize w")
    have t1: "trace w1 = trace w" using env_size_frame[OF es] by simp
    let ?parents = "if parentID \<noteq> [] then [parentID] else [''root'']"
    let ?media = "if chunkSize > 0 then Some chunkSize else None"
    obtain created st where cr: "Files_Create srv (names ! i) ?parents f ?media (store w1) = (created, st)"
      by (cases "Files_Create srv (names ! i) ?parents f ?media (store w1)")
    let ?w2 = "w1\<lparr>store := st, trace := trace w1 @ [Created (names ! i) ?parents f ?media created]\<rparr>"
    show ?thesis
    proof (cases created)
      case (Inl err)
      have "r = Inl (UploadError (names ! i) err)" "w' = log_Printf (UploadFailed err) ?w2"
        using assms i Some es cr Inl by (simp_all add: Let_def)
      then have "trace w' = trace w @ [Created (names ! i) ?parents f ?media (Inl err)]"
        "r = Inl (UploadError (names ! i) err)"
        using t1 Inl by (simp_all add: log_Printf_def)
      then show ?thesis using i by blast
    next
      case (Inr new_id)
      let ?w3 = "log_Printf (UploadFinished (names ! i) new_id) ?w2"
      let ?w4 = "if count > 1
                 then (case os_Remove ?w3 path of
                         (False, w') \<Rightarrow> log_Printf (WarnRemoveChunk path) w'
                       | (True, w') \<Rightarrow> log_Printf (CleanupRemovedChunk path) w')
                 else ?w3"
      have rec: "upload_loop srv ops parentID count names (Suc i) rest (ids @ [new_id]) ?w4 = (r, w')"
        using assms i Some es cr Inr by (auto simp: Let_def split: if_splits)
      have "trace ?w4 = trace ?w3" by (simp add: trace_after_remove)
      then have t4: "trace ?w4 = trace w @ [Created (names ! i) ?parents f ?media (Inr new_id)]"
        using t1 Inr by (simp add: log_Printf_def)
      show ?thesis using i rec t4 by blast
    qed
  qed
qed


lemma created_names_Cons:
  "created_names (Created n ps f m res # es) = n # created_names es"
  by (simp add: created_names_def)

lemma created_ids_Cons:
  "created_ids (Created n ps f m res # es)
   = (case res of Inr i \<Rightarrow> [i] | Inl e \<Rightarrow> []) @ created_ids es"
  by (simp add: created_ids_def split: sum.splits)

lemma failed_creates_Cons:
  "failed_creates (Created n ps f m res # es)
   = (case res of Inl e \<Rightarrow> [(n, e)] | Inr i \<Rightarrow> []) @ failed_creates es"
  by (simp add: failed_creates_def split: sum.splits)

lemma deleted_ids_Created: "deleted_ids (Created n ps f m res # es) = deleted_ids es"
  by (simp add: deleted_ids_def)

lemma readers_Nil:
  "created_names [] = []" "created_ids [] = []" "failed_creates [] = []" "deleted_ids [] = []"
  by (simp_all add: created_names_def created_ids_def failed_creates_def deleted_ids_def)

lemma upload_loop_effect:
  "upload_loop srv ops parentID count names i paths ids w = (r, w') \<Longrightarrow>
   \<exists>es. trace w' = trace w @ es \<and> deleted_ids es = []
     \<and> (\<exists>j. created_names es = take j (drop i names))
     \<and> ((\<exists>ids'. r = Inr ids' \<and> ids' = ids @ created_ids es \<and> failed_creates es = []
             \<and> created_names es = take (length paths) (drop i names)
             \<and> length (created_ids es) = length paths)
        \<or> (\<exists>nm err k. r = Inl (UploadError nm err) \<and> failed_creates es = [(nm, err)]
             \<and> k < length paths \<and> i + k < length names \<and> nm = names ! (i + k)
             \<and> created_names es = take (Suc k) (drop i names)
             \<and> length (created_ids es) = k)
        \<or> ((r = Inl IndexOutOfRange \<or> (\<exists>p. r = Inl (OpenFileError p))) \<and> failed_creates es = []))"
proof (induction paths arbitrary: i ids w)
  case Nil
  then have "r = Inr ids" "w' = w" by simp_all
  then show ?case by (intro exI[of _ "[]"]) (simp add: readers_Nil exI[of _ "0::nat"])
next
  case (Cons path rest)
  let ?parents = "if parentID \<noteq> [] then [parentID] else [''root'']"
  from upload_loop_Cons[OF Cons.prems]
  consider (range) "length names \<le> i" "r = Inl IndexOutOfRange" "w' = w"
    | (opened) "i < length names" "r = Inl (OpenFileError path)" "w' = w"
    | (failed) f media err where "i < length names"
        "trace w' = trace w @ [Created (names ! i) ?parents f media (Inl err)]"
        "r = Inl (UploadError (names ! i) err)"
    | (created) f media new_id w4 where "i < length names"
        "trace w4 = trace w @ [Created (names ! i) ?parents f media (Inr new_id)]"
        "upload_loop srv ops parentID count names (Suc i) rest (ids @ [new_id]) w4 = (r, w')"
    by blast
  then show ?case
  proof cases
    case range
    then show ?thesis by (intro exI[of _ "[]"]) (simp add: readers_Nil exI[of _ "0::nat"])
  next
    case opened
    then show ?thesis by (intro exI[of _ "[]"]) (simp add: readers_Nil exI[of _ "0::nat"])
  next
    case failed
    let ?es = "[Created (names ! i) ?parents f media (Inl err)]"
    have n: "take (Suc 0) (drop i names) = [names ! i]"
      using failed(1) by (simp add: Cons_nth_drop_Suc[symmetric])
    have "trace w' = trace w @ ?es" "deleted_ids ?es = []"
      "failed_creates ?es = [(names ! i, err)]" "created_names ?es = take (Suc 0) (drop i names)"
      "length (created_ids ?es) = 0"
      using failed n
      by (simp_all add: created_names_Cons created_ids_Cons failed_creates_Cons deleted_ids_Created readers_Nil)
    moreover have "\<exists>j. created_names ?es = take j (drop i names)"
      using n by (intro exI[of _ "Suc 0"]) (simp add: created_names_Cons readers_Nil)
    ultimately show ?thesis using failed(1,3)
      by (intro exI[of _ ?es]) (auto intro!: exI[of _ "0::nat"])
  next
    case created
    let ?ev = "Created (names ! i) ?parents f media (Inr new_id)"
    from Cons.IH[OF created(3)] obtain es where
      t: "trace w' = trace w4 @ es" and d: "deleted_ids es = []"
      and pre: "\<exists>j. created_names es = take j (drop (Suc i) names)"
      and alt: "(\<exists>ids'. r = Inr ids' \<and> ids' = (ids @ [new_id]) @ created_ids es \<and> failed_creates es = []
             \<and> created_names es = take (length rest) (drop (Suc i) names)
             \<and> length (created_ids es) = length rest)
        \<or> (\<exists>nm err k. r = Inl (UploadError nm err) \<and> failed_creates es = [(nm, err)]
             \<and> k < length rest \<and> Suc i + k < length names \<and> nm = names ! (Suc i + k)
             \<and> created_names es = take (Suc k) (drop (Suc i) names)
             \<and> length (created_ids es) = k)
        \<or> ((r = Inl IndexOutOfRange \<or> (\<exists>p. r = Inl (OpenFileError p))) \<and> failed_creates es = [])"
      by blast
    have dr: "drop i names = names ! i # drop (Suc i) names"
      using created(1) by (simp add: Cons_nth_drop_Suc)
    have T: "trace w' = trace w @ (?ev # es)" using t created(2) by simp
    have D: "deleted_ids (?ev # es) = []" using d by (simp add: deleted_ids_Created)
    have cn: "created_names (?ev # es) = names ! i # created_names es"
      by (simp add: created_names_Cons)
    have ci: "created_ids (?ev # es) = new_id # created_ids es"
      by (simp add: created_ids_Cons)
    have fc: "failed_creates (?ev # es) = failed_creates es"
      by (simp add: failed_creates_Cons)
    have J: "\<exists>j. created_names (?ev # es) = take j (drop i names)"
    proof -
      from pre obtain j where "created_names es = take j (drop (Suc i) names)" ..
      then have "created_names (?ev # es) = take (Suc j) (drop i names)"
        unfolding cn dr by simp
      then show ?thesis ..
    qed
    from alt consider
      (ok) ids' where "r = Inr ids'" "ids' = (ids @ [new_id]) @ created_ids es" "failed_creates es = []"
        "created_names es = take (length rest) (drop (Suc i) names)"
        "length (created_ids es) = length rest"
      | (bad) nm err k where "r = Inl (UploadError nm err)" "failed_creates es = [(nm, err)]"
        "k < length rest" "Suc i + k < length names" "nm = names ! (Suc i + k)"
        "created_names es = take (Suc k) (drop (Suc i) names)" "length (created_ids es) = k"
      | (other) "r = Inl IndexOutOfRange \<or> (\<exists>p. r = Inl (OpenFileError p))" "failed_creates es = []"
      by blast
    then show ?thesis
    proof cases
      case ok
      have "\<exists>ids'. r = Inr ids' \<and> ids' = ids @ created_ids (?ev # es) \<and> failed_creates (?ev # es) = []
             \<and> created_names (?ev # es) = take (length (path # rest)) (drop i names)
             \<and> length (created_ids (?ev # es)) = length (path # rest)"
        using ok unfolding cn ci fc dr by simp
      then show ?thesis using T D J by blast
    next
      case bad
      have "\<exists>nm err k. r = Inl (UploadError nm err) \<and> failed_creates (?ev # es) = [(nm, err)]
             \<and> k < length (path # rest) \<and> i + k < length names \<and> nm = names ! (i + k)
             \<and> created_names (?ev # es) = take (Suc k) (drop i names)
             \<and> length (created_ids (?ev # es)) = k"
        using bad unfolding cn ci fc dr
        by (intro exI[of _ nm] exI[of _ err] exI[of _ "Suc k"]) simp
      then show ?thesis using T D J by blast
    next
      case other
      then have "(r = Inl IndexOutOfRange \<or> (\<exists>p. r = Inl (OpenFileError p)))
                 \<and> failed_creates (?ev # es) = []"
        unfolding fc by simp
      then show ?thesis using T D J by blast
    qed
  qed
qed


lemma splitFile_any:
  assumes "0 < C" and "splitFile w ip dir base C = Some (r, w')"
  shows "trace w' = trace w
       \<and> (\<forall>cf. r = Inr cf \<longrightarrow>
             (\<exists>content. files w ip = Some content
                \<and> cf = map (chunk_path dir base) [1 ..< 1 + parts_count (length content) (nat C)]))"
proof (cases "files w ip")
  case None
  then show ?thesis using assms(2) by (auto simp: splitFile_def os_Open_def)
next
  case (Some content)
  then have run: "split_loop dir base C content 1 [] w = Some (r, w')"
    using assms(2) by (simp add: splitFile_def os_Open_def)
  from split_loop_any[OF assms(1), of dir base content 1 "[]" w] obtain r0 w0 where
    a: "split_loop dir base C content 1 [] w = Some (r0, w0)"
    and t: "trace w0 = trace w"
    and cf: "\<forall>cf. r0 = Inr cf \<longrightarrow>
             cf = [] @ map (chunk_path dir base) [1 ..< 1 + parts_count (length content) (nat C)]"
    by (elim exE conjE) (rule that; assumption)
  have "r0 = r" "w0 = w'" using a run by simp_all
  then show ?thesis using t cf Some by (simp del: upt_Suc)
qed

lemma parseSizeString_pos: "parseSizeString ops s = Inr v \<Longrightarrow> 0 < v"
  by (auto simp: parseSizeString_def Let_def split: option.splits prod.splits if_splits)

lemma parseSizeString_empty: "parseSizeString ops [] = Inl (InvalidFormat [])"
  by (simp add: parseSizeString_def TrimSpace_def ToLower_def size_re_def)

lemma upload_plan_facts:
  assumes "upload_plan ops filePath fileName w = Some (res, w1)"
  shows "trace w1 = trace w
       \<and> (\<forall>paths names. res = Inr (paths, names) \<longrightarrow>
             length names = length paths
             \<and> ((paths = [filePath] \<and> names = [fileName])
                \<or> (\<exists>C content. parseSizeString ops (os_Getenv w ''UPLOAD_SPLIT_SIZE'') = Inr C
                      \<and> files w filePath = Some content \<and> C < int (length content)
                      \<and> paths = map (chunk_path tmpDir (TrimSuffix fileName (filepath_Ext fileName)))
                                  [1 ..< 1 + parts_count (length content) (nat C)]
                      \<and> names = map filepath_Base paths)))"
proof -
  obtain splitSize w0 where es: "env_size ops ''UPLOAD_SPLIT_SIZE'' WarnInvalidSplitSize w = (splitSize, w0)"
    by (cases "env_size ops ''UPLOAD_SPLIT_SIZE'' WarnInvalidSplitSize w")
  have fr: "trace w0 = trace w" "files w0 = files w" using env_size_frame[OF es] by simp_all
  have ps: "splitSize = 0 \<or> parseSizeString ops (os_Getenv w ''UPLOAD_SPLIT_SIZE'') = Inr splitSize"
    using es by (auto simp: env_size_def Let_def split: if_splits sum.splits)
  show ?thesis
  proof (cases "os_Stat w0 filePath")
    case None
    then show ?thesis using assms es fr by (auto simp: upload_plan_def)
  next
    case (Some fileSize)
    then obtain content where content: "files w filePath = Some content" "fileSize = int (length content)"
      using fr by (auto simp: os_Stat_def)
    show ?thesis
    proof (cases "splitSize > 0 \<and> fileSize > splitSize")
      case False
      then have "res = Inr ([filePath], [fileName])" "w1 = w0"
        using assms es Some by (auto simp: upload_plan_def)
      then show ?thesis using fr by simp
    next
      case True
      let ?base = "TrimSuffix fileName (filepath_Ext fileName)"
      have parsed: "parseSizeString ops (os_Getenv w ''UPLOAD_SPLIT_SIZE'') = Inr splitSize"
        using ps True by simp
      obtain r2 w2 where sp: "splitFile w0 filePath tmpDir ?base splitSize = Some (r2, w2)"
        using assms es Some True
        by (cases "splitFile w0 filePath tmpDir ?base splitSize") (auto simp: upload_plan_def)
      from splitFile_any[OF _ sp] True have t2: "trace w2 = trace w0"
        and cf: "\<forall>cf. r2 = Inr cf \<longrightarrow>
             (\<exists>content. files w0 filePath = Some content
                \<and> cf = map (chunk_path tmpDir ?base) [1 ..< 1 + parts_count (length content) (nat splitSize)])"
        by (simp_all del: upt_Suc)
      show ?thesis
      proof (cases r2)
        case (Inl err)
        then have "res = Inl (SplitError err)" "w1 = w2"
          using assms es Some True sp by (auto simp: upload_plan_def)
        then show ?thesis using t2 fr by simp
      next
        case (Inr chunkFiles)
        then have r: "res = Inr (chunkFiles, map filepath_Base chunkFiles)" "w1 = w2"
          using assms es Some True sp by (auto simp: upload_plan_def)
        have "chunkFiles = map (chunk_path tmpDir ?base)
                 [1 ..< 1 + parts_count (length content) (nat splitSize)]"
          using cf Inr content fr by (simp del: upt_Suc)
        then show ?thesis using r t2 fr parsed content True by (simp del: upt_Suc)
      qed
    qed
  qed
qed

lemma uploadToDrive_cases:
  assumes "uploadToDrive srv ops filePath fileName parentID w = Some (r, w')"
  obtains (plan_failed) e where "upload_plan ops filePath fileName w = Some (Inl e, w')" "r = Inl e"
  | (loop_failed) paths names w1 e where
      "upload_plan ops filePath fileName w = Some (Inr (paths, names), w1)"
      "upload_loop srv ops parentID (length paths) names 0 paths [] w1 = (Inl e, w')" "r = Inl e"
  | (no_ids) paths names w1 w2 where
      "upload_plan ops filePath fileName w = Some (Inr (paths, names), w1)"
      "upload_loop srv ops parentID (length paths) names 0 paths [] w1 = (Inr [], w2)"
      "r = Inl IndexOutOfRange" "w' = log_Printf (UploadedChunks 0 []) w2"
  | (one) paths names w1 i where
      "upload_plan ops filePath fileName w = Some (Inr (paths, names), w1)"
      "upload_loop srv ops parentID (length paths) names 0 paths [] w1 = (Inr [i], w')" "r = Inr i"
  | (many) paths names w1 i j ids w2 where
      "upload_plan ops filePath fileName w = Some (Inr (paths, names), w1)"
      "upload_loop srv ops parentID (length paths) names 0 paths [] w1 = (Inr (i # j # ids), w2)"
      "r = Inr i"
      "w' = log_Printf (UploadedChunks (length (i # j # ids)) (i # j # ids)) w2"
proof -
  obtain res w1 where plan: "upload_plan ops filePath fileName w = Some (res, w1)"
    using assms by (cases "upload_plan ops filePath fileName w") (auto simp: uploadToDrive_def)
  show thesis
  proof (cases res)
    case (Inl e)
    then have "upload_plan ops filePath fileName w = Some (Inl e, w')" "r = Inl e"
      using assms plan by (auto simp: uploadToDrive_def)
    then show thesis by (rule plan_failed)
  next
    case (Inr pn)
    obtain paths names where pn: "pn = (paths, names)" by (cases pn)
    have plan': "upload_plan ops filePath fileName w = Some (Inr (paths, names), w1)"
      using plan Inr pn by simp
    obtain r2 w2 where loop: "upload_loop srv ops parentID (length paths) names 0 paths [] w1 = (r2, w2)"
      by (cases "upload_loop srv ops parentID (length paths) names 0 paths [] w1")
    show thesis
    proof (cases r2)
      case (Inl e)
      then have "r = Inl e" "w' = w2" using assms plan' loop by (auto simp: uploadToDrive_def)
      then show thesis using loop_failed[OF plan'] loop Inl by simp
    next
      case r2: (Inr ids)
      show thesis
      proof (cases ids)
        case Nil
        then have "r = Inl IndexOutOfRange" "w' = log_Printf (UploadedChunks 0 []) w2"
          using assms plan' loop r2 by (auto simp: uploadToDrive_def Let_def)
        then show thesis using no_ids[OF plan'] loop r2 Nil by simp
      next
        case (Cons i rest)
        show thesis
        proof (cases rest)
          case Nil
          then have "r = Inr i" "w' = w2"
            using assms plan' loop r2 Cons by (auto simp: uploadToDrive_def Let_def)
          then show thesis using one[OF plan'] loop r2 Cons Nil by simp
        next
          case c2: (Cons j ids')
          then have "r = Inr i"
            "w' = log_Printf (UploadedChunks (length (i # j # ids')) (i # j # ids')) w2"
            using assms plan' loop r2 Cons by (auto simp: uploadToDrive_def Let_def)
          then show thesis using many[OF plan'] loop r2 Cons c2 by simp
        qed
      qed
    qed
  qed
qed

lemma new_events_append: "trace w' = trace w @ es \<Longrightarrow> new_events w w' = es"
  by (simp add: new_events_def)

text \<open>
  Claim C1, amended. Every successful run of \<open>uploadToDrive\<close> returns the first of the
  identifiers that the store's create calls returned, in upload order. All the planned
  files were created, under their planned names and with no failure; when there are two
  or more identifiers, the full ordered list is the last line of the log and is not
  returned.
\<close>

theorem upload_returns_first_id:
  assumes "uploadToDrive srv ops filePath fileName parentID w = Some (Inr first_id, w')"
  shows "created_ids (new_events w w') \<noteq> []
       \<and> first_id = hd (created_ids (new_events w w'))
       \<and> failed_creates (new_events w w') = []
       \<and> (\<exists>paths names w1. upload_plan ops filePath fileName w = Some (Inr (paths, names), w1)
             \<and> created_names (new_events w w') = names
             \<and> length (created_ids (new_events w w')) = length paths)
       \<and> (2 \<le> length (created_ids (new_events w w'))
            \<longrightarrow> last (logs w') = UploadedChunks (length (created_ids (new_events w w')))
                                  (created_ids (new_events w w')))"
proof -
  have main: "created_ids (new_events w w') = first_id # ids
       \<and> failed_creates (new_events w w') = []
       \<and> created_names (new_events w w') = names
       \<and> length (created_ids (new_events w w')) = length paths"
    if plan: "upload_plan ops filePath fileName w = Some (Inr (paths, names), w1)"
      and loop: "upload_loop srv ops parentID (length paths) names 0 paths [] w1
                 = (Inr (first_id # ids), w2)"
      and t: "trace w' = trace w2"
    for paths names w1 ids w2
  proof -
    from upload_plan_facts[OF plan] have t1: "trace w1 = trace w" and ln: "length names = length paths"
      by simp_all
    from upload_loop_effect[OF loop] obtain es where
      t2: "trace w2 = trace w1 @ es" and ci: "first_id # ids = created_ids es"
      and fc: "failed_creates es = []"
      and cn: "created_names es = take (length paths) (drop 0 names)"
      and cl: "length (created_ids es) = length paths"
      by auto
    have ne: "new_events w w' = es" using t t1 t2 by (intro new_events_append) simp
    show ?thesis unfolding ne using ci fc cn cl ln by simp
  qed
  from assms show ?thesis
  proof (cases rule: uploadToDrive_cases)
    case (plan_failed e)
    then show ?thesis by simp
  next
    case (loop_failed paths names w1 e)
    then show ?thesis by simp
  next
    case (no_ids paths names w1 w2)
    then show ?thesis by simp
  next
    case (one paths names w1 i)
    then have "i = first_id" by simp
    with main[OF one(1), of "[]" w'] one(2) show ?thesis using one(1) by auto
  next
    case (many paths names w1 i j ids w2)
    then have i: "i = first_id" by simp
    have t: "trace w' = trace w2" using many(4) by (simp add: log_Printf_def)
    have l: "last (logs w') = UploadedChunks (length (first_id # j # ids)) (first_id # j # ids)"
      using many(4) i by (simp add: log_Printf_def)
    from main[OF many(1) _ t, of "j # ids"] many(2) i
    have m: "created_ids (new_events w w') = first_id # j # ids"
      "failed_creates (new_events w w') = []"
      "created_names (new_events w w') = names"
      "length (created_ids (new_events w w')) = length paths"
      by auto
    show ?thesis unfolding m(1) using m(2,3) m(4)[unfolded m(1)] l many(1) by auto
  qed
qed

text \<open>
  Claim C7. When a create call of a run of \<open>uploadToDrive\<close> fails, on the part \<open>nm\<close>
  with the error \<open>err\<close>, the run returns the upload error that carries \<open>nm\<close> and \<open>err\<close>;
  \<open>nm\<close> is the name at some position \<open>k\<close> of the plan, the create calls of the run are
  those of the names up to that position and no other, the \<open>k\<close> calls before it
  succeeded, and the run made no delete call.
\<close>

theorem upload_failure_stops:
  assumes "uploadToDrive srv ops filePath fileName parentID w = Some (r, w')"
    and "(nm, err) \<in> set (failed_creates (new_events w w'))"
  shows "r = Inl (UploadError nm err)
       \<and> (\<exists>paths names w1 k. upload_plan ops filePath fileName w = Some (Inr (paths, names), w1)
             \<and> k < length names \<and> nm = names ! k
             \<and> created_names (new_events w w') = take (Suc k) names
             \<and> length (created_ids (new_events w w')) = k
             \<and> failed_creates (new_events w w') = [(nm, err)])
       \<and> deleted_ids (new_events w w') = []"
proof -
  have main: "r2 = Inl (UploadError nm err)
       \<and> (\<exists>k. k < length names \<and> nm = names ! k
             \<and> created_names (new_events w w') = take (Suc k) names
             \<and> length (created_ids (new_events w w')) = k
             \<and> failed_creates (new_events w w') = [(nm, err)])
       \<and> deleted_ids (new_events w w') = []"
    if plan: "upload_plan ops filePath fileName w = Some (Inr (paths, names), w1)"
      and loop: "upload_loop srv ops parentID (length paths) names 0 paths [] w1 = (r2, w2)"
      and t: "trace w' = trace w2"
    for paths names w1 r2 w2
  proof -
    from upload_plan_facts[OF plan] have t1: "trace w1 = trace w" by simp
    from upload_loop_effect[OF loop] obtain es where
      t2: "trace w2 = trace w1 @ es" and del: "deleted_ids es = []"
      and alt: "(\<exists>ids'. r2 = Inr ids' \<and> ids' = [] @ created_ids es \<and> failed_creates es = []
             \<and> created_names es = take (length paths) (drop 0 names)
             \<and> length (created_ids es) = length paths)
        \<or> (\<exists>nm err k. r2 = Inl (UploadError nm err) \<and> failed_creates es = [(nm, err)]
             \<and> k < length paths \<and> 0 + k < length names \<and> nm = names ! (0 + k)
             \<and> created_names es = take (Suc k) (drop 0 names)
             \<and> length (created_ids es) = k)
        \<or> ((r2 = Inl IndexOutOfRange \<or> (\<exists>p. r2 = Inl (OpenFileError p))) \<and> failed_creates es = [])"
      by blast
    have ne: "new_events w w' = es" using t t1 t2 by (intro new_events_append) simp
    have mem: "(nm, err) \<in> set (failed_creates es)" using assms(2) unfolding ne .
    then have "failed_creates es \<noteq> []" by auto
    with alt obtain nm' err' k where
      f: "r2 = Inl (UploadError nm' err')" "failed_creates es = [(nm', err')]"
        "0 + k < length names" "nm' = names ! (0 + k)"
        "created_names es = take (Suc k) (drop 0 names)" "length (created_ids es) = k"
      by auto
    have same: "nm' = nm" "err' = err" using mem f(2) by simp_all
    show ?thesis unfolding ne using f same del by auto
  qed
  from assms(1) show ?thesis
  proof (cases rule: uploadToDrive_cases)
    case (plan_failed e)
    from upload_plan_facts[OF plan_failed(1)] have "trace w' = trace w" by simp
    then have "new_events w w' = []" by (simp add: new_events_def)
    then show ?thesis using assms(2) by (simp add: readers_Nil)
  next
    case (loop_failed paths names w1 e)
    from main[OF loop_failed(1,2)] loop_failed(1,3) show ?thesis by auto
  next
    case (no_ids paths names w1 w2)
    have "trace w' = trace w2" using no_ids(4) by (simp add: log_Printf_def)
    from main[OF no_ids(1,2) this] show ?thesis by simp
  next
    case (one paths names w1 i)
    from main[OF one(1,2)] show ?thesis by simp
  next
    case (many paths names w1 i j ids w2)
    have "trace w' = trace w2" using many(4) by (simp add: log_Printf_def)
    from main[OF many(1,2) this] show ?thesis by simp
  qed
qed

subsection \<open>A run on eight bytes split every four\<close>

lemma parse_4b: "parseSizeString decimal_ops ''4b'' = Inr 4"
proof -
  have a: "TrimSpace (ToLower ''4b'') = ''4b''"
    by (simp add: TrimSpace_def ToLower_def to_lower_def is_space_def)
  have b: "size_re ''4b'' = Some (''4'', ''b'')"
    by (simp add: size_re_def size_re_unit_def is_digit_def is_re_space_def units_def)
  have c: "decimal_ParseFloat ''4'' = Some (4, 0)"
    by (simp add: decimal_ParseFloat_def is_digit_def digits_val_def digit_val_def)
  show ?thesis
    unfolding parseSizeString_def Let_def a b by (simp add: decimal_ops_def c)
qed

lemma base_name: "TrimSuffix archive_name (filepath_Ext archive_name) = ''v_2025-01-01T00:00:00Z.tar''"
  by (simp add: archive_name_def TrimSuffix_def filepath_Ext_def HasSuffix_def)

lemmas split_eval = filepath_Join_def part_name_def pads os_Create_def io_CopyN_def os_Remove_def
  log_Printf_def Let_def

lemma plan_eval:
  "upload_plan decimal_ops archive_path archive_name (upload_world ''abcdefgh'' ''4b'' rf)
   = Some (Inr ([''/app/backup/tmp/v_2025-01-01T00:00:00Z.tar.part001'',
                 ''/app/backup/tmp/v_2025-01-01T00:00:00Z.tar.part002''],
                [''v_2025-01-01T00:00:00Z.tar.part001'', ''v_2025-01-01T00:00:00Z.tar.part002'']),
           (upload_world ''abcdefgh'' ''4b'' rf)
             \<lparr>files := [archive_path \<mapsto> ''abcdefgh'',
                        ''/app/backup/tmp/v_2025-01-01T00:00:00Z.tar.part001'' \<mapsto> ''abcd'',
                        ''/app/backup/tmp/v_2025-01-01T00:00:00Z.tar.part002'' \<mapsto> ''efgh''],
              logs := [SplitCreatedChunk 1 ''/app/backup/tmp/v_2025-01-01T00:00:00Z.tar.part001'' 4,
                       SplitCreatedChunk 2 ''/app/backup/tmp/v_2025-01-01T00:00:00Z.tar.part002'' 4,
                       SplitSkippedEmptyChunk 3]\<rparr>)"
  apply (simp add: upload_plan_def env_size_def os_Getenv_def upload_world_def parse_4b os_Stat_def
      archive_path_def base_name splitFile_def os_Open_def tmpDir_def)
  apply (subst split_loop.simps)
  apply (simp add: split_eval)
  apply (subst split_loop.simps)
  apply (simp add: split_eval)
  apply (subst split_loop.simps)
  apply (simp add: split_eval filepath_Base_def)
  done

lemma upload_eval_ok:
  "map_option (\<lambda>(r, w). (r, trace w, logs w))
     (uploadToDrive mem_srv decimal_ops archive_path archive_name ''root''
        (upload_world ''abcdefgh'' ''4b'' []))
   = Some (Inr ''id0'',
           [Created ''v_2025-01-01T00:00:00Z.tar.part001'' [''root''] ''abcd'' None (Inr ''id0''),
            Created ''v_2025-01-01T00:00:00Z.tar.part002'' [''root''] ''efgh'' None (Inr ''id1'')],
           [SplitCreatedChunk 1 ''/app/backup/tmp/v_2025-01-01T00:00:00Z.tar.part001'' 4,
            SplitCreatedChunk 2 ''/app/backup/tmp/v_2025-01-01T00:00:00Z.tar.part002'' 4,
            SplitSkippedEmptyChunk 3,
            UploadFinished ''v_2025-01-01T00:00:00Z.tar.part001'' ''id0'',
            CleanupRemovedChunk ''/app/backup/tmp/v_2025-01-01T00:00:00Z.tar.part001'',
            UploadFinished ''v_2025-01-01T00:00:00Z.tar.part002'' ''id1'',
            CleanupRemovedChunk ''/app/backup/tmp/v_2025-01-01T00:00:00Z.tar.part002'',
            UploadedChunks 2 [''id0'', ''id1'']])"
  apply (simp add: uploadToDrive_def plan_eval)
  apply (simp add: upload_world_def archive_path_def os_Open_def env_size_def os_Getenv_def
       parseSizeString_empty mem_srv_def Let_def log_Printf_def os_Remove_def itoa.simps)
  done

lemma upload_eval_fail:
  "map_option (\<lambda>(r, w). (r, trace w, logs w))
     (uploadToDrive mem_srv decimal_ops archive_path archive_name ''root''
        (upload_world ''abcdefgh'' ''4b'' [''v_2025-01-01T00:00:00Z.tar.part002'']))
   = Some (Inl (UploadError ''v_2025-01-01T00:00:00Z.tar.part002'' ''quota exceeded''),
           [Created ''v_2025-01-01T00:00:00Z.tar.part001'' [''root''] ''abcd'' None (Inr ''id0''),
            Created ''v_2025-01-01T00:00:00Z.tar.part002'' [''root''] ''efgh'' None
              (Inl ''quota exceeded'')],
           [SplitCreatedChunk 1 ''/app/backup/tmp/v_2025-01-01T00:00:00Z.tar.part001'' 4,
            SplitCreatedChunk 2 ''/app/backup/tmp/v_2025-01-01T00:00:00Z.tar.part002'' 4,
            SplitSkippedEmptyChunk 3,
            UploadFinished ''v_2025-01-01T00:00:00Z.tar.part001'' ''id0'',
            CleanupRemovedChunk ''/app/backup/tmp/v_2025-01-01T00:00:00Z.tar.part001'',
            UploadFailed ''quota exceeded''])"
  apply (simp add: uploadToDrive_def plan_eval)
  apply (simp add: upload_world_def archive_path_def os_Open_def env_size_def os_Getenv_def
       parseSizeString_empty mem_srv_def Let_def log_Printf_def os_Remove_def itoa.simps)
  done


subsection \<open>The names of the parts\<close>

lemma env_size_value:
  assumes "parseSizeString ops (os_Getenv w var) = Inr C"
  shows "env_size ops var warn w = (C, w)"
proof -
  have "os_Getenv w var \<noteq> []" using assms parseSizeString_empty[of ops] by auto
  then show ?thesis using assms by (simp add: env_size_def)
qed

lemma upload_plan_split:
  assumes parse: "parseSizeString ops (os_Getenv w ''UPLOAD_SPLIT_SIZE'') = Inr C"
    and content: "files w filePath = Some content" and big: "C < int (length content)"
    and plan: "upload_plan ops filePath fileName w = Some (Inr (paths, names), w1)"
  shows "paths = map (chunk_path tmpDir (TrimSuffix fileName (filepath_Ext fileName)))
                   [1 ..< 1 + parts_count (length content) (nat C)]
       \<and> names = map filepath_Base paths"
proof -
  let ?base = "TrimSuffix fileName (filepath_Ext fileName)"
  have C: "0 < C" using parseSizeString_pos[OF parse] .
  have es: "env_size ops ''UPLOAD_SPLIT_SIZE'' WarnInvalidSplitSize w = (C, w)"
    by (rule env_size_value[OF parse])
  have st: "os_Stat w filePath = Some (int (length content))"
    using content by (simp add: os_Stat_def)
  obtain r2 w2 where sp: "splitFile w filePath tmpDir ?base C = Some (r2, w2)"
    using plan es st C big
    by (cases "splitFile w filePath tmpDir ?base C") (auto simp: upload_plan_def)
  from splitFile_any[OF C sp] have
    cf: "\<forall>cf. r2 = Inr cf \<longrightarrow>
             (\<exists>content. files w filePath = Some content
                \<and> cf = map (chunk_path tmpDir ?base) [1 ..< 1 + parts_count (length content) (nat C)])"
    by (simp del: upt_Suc)
  show ?thesis
  proof (cases r2)
    case (Inl err)
    then show ?thesis using plan es st C big sp by (auto simp: upload_plan_def)
  next
    case (Inr chunkFiles)
    then have r: "paths = chunkFiles" "names = map filepath_Base chunkFiles"
      using plan es st C big sp by (auto simp: upload_plan_def)
    have "chunkFiles = map (chunk_path tmpDir ?base) [1 ..< 1 + parts_count (length content) (nat C)]"
      using cf Inr content by (simp del: upt_Suc)
    then show ?thesis using r by (simp del: upt_Suc)
  qed
qed

lemma itoa_digits: "set (itoa n) \<subseteq> set ''0123456789''"
proof (induction n rule: itoa.induct)
  case (1 n)
  have d: "\<And>k. k < 10 \<Longrightarrow> ''0123456789'' ! k \<in> set ''0123456789''"
    by (rule nth_mem) simp
  show ?case
  proof (cases "n < 10")
    case True
    then show ?thesis using d[of n] by (subst itoa.simps) simp
  next
    case False
    have "set (itoa n) = set (itoa (n div 10)) \<union> {''0123456789'' ! (n mod 10)}"
      using False by (subst itoa.simps) simp
    then show ?thesis using 1[OF False] d[of "n mod 10"] by simp
  qed
qed

lemma pad3_digits: "list_all is_digit (pad3 n)"
proof -
  have a: "\<forall>c \<in> set (itoa n). is_digit c"
    using itoa_digits[of n] unfolding is_digit_def by blast
  have b: "is_digit (CHR ''0'')" by (simp add: is_digit_def)
  show ?thesis unfolding pad3_def list_all_iff using a b by (auto split: if_splits)
qed

lemma pad3_length: "3 \<le> length (pad3 n)"
  by (simp add: pad3_def)

lemma pad3_no_slash: "CHR ''/'' \<notin> set (pad3 n)"
proof
  assume "CHR ''/'' \<in> set (pad3 n)"
  then have "is_digit (CHR ''/'')" using pad3_digits[of n] unfolding list_all_iff by blast
  then show False by (simp add: is_digit_def)
qed

lemma filepath_Base_Join:
  assumes "CHR ''/'' \<notin> set name" "name \<noteq> []"
  shows "filepath_Base (filepath_Join dir name) = name"
proof -
  let ?p = "\<lambda>c. c = CHR ''/''" and ?q = "\<lambda>c. c \<noteq> CHR ''/''"
  obtain c cs where r: "rev name = c # cs" using assms(2) by (cases "rev name") auto
  have c: "c \<noteq> CHR ''/''" using assms(1) r by (metis list.set_intros(1) set_rev)
  have rv: "rev (filepath_Join dir name) = rev name @ CHR ''/'' # rev dir"
    by (simp add: filepath_Join_def)
  have d: "dropWhile ?p (rev name @ CHR ''/'' # rev dir) = rev name @ CHR ''/'' # rev dir"
    unfolding r using c by simp
  have "\<forall>x \<in> set (rev name). ?q x" using assms(1) by auto
  then have t: "takeWhile ?q (rev name @ CHR ''/'' # rev dir) = rev name"
    by (subst takeWhile_append2) auto
  have ne: "filepath_Join dir name \<noteq> []" by (simp add: filepath_Join_def)
  show ?thesis
    using ne assms(2) by (simp add: filepath_Base_def Let_def rv d t)
qed

lemma filepath_Base_chunk:
  "CHR ''/'' \<notin> set base \<Longrightarrow> filepath_Base (chunk_path dir base n) = part_name base n"
  unfolding chunk_path_def
  by (rule filepath_Base_Join) (simp_all add: part_name_def pad3_no_slash)

lemma tar_gz_base: "TrimSuffix (stem @ ''.tar.gz'') (filepath_Ext (stem @ ''.tar.gz'')) = stem @ ''.tar''"
proof -
  have e: "filepath_Ext (stem @ ''.tar.gz'') = ''.gz''"
    by (simp add: filepath_Ext_def)
  show ?thesis unfolding e by (simp add: TrimSuffix_def HasSuffix_def)
qed

lemma created_names_prefix:
  assumes "uploadToDrive srv ops filePath fileName parentID w = Some (r, w')"
  shows "new_events w w' = []
       \<or> (\<exists>paths names w1 j. upload_plan ops filePath fileName w = Some (Inr (paths, names), w1)
             \<and> created_names (new_events w w') = take j names)"
proof -
  have main: "\<exists>j. created_names (new_events w w') = take j names"
    if plan: "upload_plan ops filePath fileName w = Some (Inr (paths, names), w1)"
      and loop: "upload_loop srv ops parentID (length paths) names 0 paths [] w1 = (r2, w2)"
      and t: "trace w' = trace w2"
    for paths names w1 r2 w2
  proof -
    from upload_plan_facts[OF plan] have t1: "trace w1 = trace w" by simp
    from upload_loop_effect[OF loop] obtain es j where
      t2: "trace w2 = trace w1 @ es" and cn: "created_names es = take j (drop 0 names)"
      by (elim exE conjE) (rule that; assumption)
    have ne: "new_events w w' = es" using t t1 t2 by (intro new_events_append) simp
    show ?thesis unfolding ne using cn by auto
  qed
  from assms show ?thesis
  proof (cases rule: uploadToDrive_cases)
    case (plan_failed e)
    from upload_plan_facts[OF plan_failed(1)] have "trace w' = trace w" by simp
    then show ?thesis by (simp add: new_events_def)
  next
    case (loop_failed paths names w1 e)
    from main[OF loop_failed(1,2)] loop_failed(1) show ?thesis by blast
  next
    case (no_ids paths names w1 w2)
    have "trace w' = trace w2" using no_ids(4) by (simp add: log_Printf_def)
    from main[OF no_ids(1,2) this] no_ids(1) show ?thesis by blast
  next
    case (one paths names w1 i)
    from main[OF one(1,2)] one(1) show ?thesis by blast
  next
    case (many paths names w1 i j ids w2)
    have "trace w' = trace w2" using many(4) by (simp add: log_Printf_def)
    from main[OF many(1,2) this] many(1) show ?thesis by blast
  qed
qed

text \<open>
  Claim C2, amended. For an archive named \<open>folderName_timestamp.tar.gz\<close> (neither part
  of the name holding a slash), a split size \<open>C\<close> read from \<open>UPLOAD_SPLIT_SIZE\<close> and an
  archive of more than \<open>C\<close> bytes, the \<open>i\<close>-th create call of a run of \<open>uploadToDrive\<close>,
  counting from 1, carries the name \<open>folderName_timestamp.tar.partNNN\<close>, where \<open>NNN\<close> is
  \<open>i\<close> in decimal digits, padded with zeros to three digits at least. The extension
  \<open>.gz\<close> is cut off before \<open>.partNNN\<close> is added.
\<close>

theorem part_names:
  assumes "CHR ''/'' \<notin> set folderName" and "CHR ''/'' \<notin> set timestamp"
    and "parseSizeString ops (os_Getenv w ''UPLOAD_SPLIT_SIZE'') = Inr C"
    and "files w filePath = Some content" and "C < int (length content)"
    and "uploadToDrive srv ops filePath (folderName @ ''_'' @ timestamp @ ''.tar.gz'') parentID w
         = Some (r, w')"
  shows "\<forall>i < length (created_names (new_events w w')).
           created_names (new_events w w') ! i
             = folderName @ ''_'' @ timestamp @ ''.tar.part'' @ pad3 (Suc i)
           \<and> 3 \<le> length (pad3 (Suc i)) \<and> list_all is_digit (pad3 (Suc i))
           \<and> digits_val (pad3 (Suc i)) = Suc i"
proof (intro allI impI)
  fix i assume i: "i < length (created_names (new_events w w'))"
  let ?fileName = "folderName @ ''_'' @ timestamp @ ''.tar.gz''"
  let ?base = "folderName @ ''_'' @ timestamp @ ''.tar''"
  have base: "TrimSuffix ?fileName (filepath_Ext ?fileName) = ?base"
    using tar_gz_base[of "folderName @ ''_'' @ timestamp"] by simp
  have ns: "CHR ''/'' \<notin> set ?base" using assms(1,2) by simp
  from created_names_prefix[OF assms(6)] i obtain paths names w1 j where
    plan: "upload_plan ops filePath ?fileName w = Some (Inr (paths, names), w1)"
    and cn: "created_names (new_events w w') = take j names"
    by (auto simp: readers_Nil)
  let ?m = "parts_count (length content) (nat C)"
  from upload_plan_split[OF assms(3,4,5) plan] have
    names: "names = map filepath_Base (map (chunk_path tmpDir ?base) [1 ..< 1 + ?m])"
    unfolding base by simp
  have il: "i < length names" using i cn by simp
  then have im: "i < ?m" unfolding names by (simp del: upt_Suc)
  have "created_names (new_events w w') ! i = names ! i" using i cn by simp
  also have "\<dots> = filepath_Base (chunk_path tmpDir ?base (Suc i))"
    unfolding names using im by (simp del: upt_Suc)
  also have "\<dots> = part_name ?base (Suc i)" by (rule filepath_Base_chunk[OF ns])
  finally have "created_names (new_events w w') ! i
                = folderName @ ''_'' @ timestamp @ ''.tar.part'' @ pad3 (Suc i)"
    by (simp add: part_name_def)
  then show "created_names (new_events w w') ! i
             = folderName @ ''_'' @ timestamp @ ''.tar.part'' @ pad3 (Suc i)
           \<and> 3 \<le> length (pad3 (Suc i)) \<and> list_all is_digit (pad3 (Suc i))
           \<and> digits_val (pad3 (Suc i)) = Suc i"
    using pad3_length pad3_digits digits_val_pad3 by simp
qed


lemma new_events_fresh: "trace w = [] \<Longrightarrow> new_events w w' = trace w'"
  by (simp add: new_events_def)

lemma upload_world_trace: "trace (upload_world content sz rf) = []"
  by (simp add: upload_world_def)

lemma upload_ok_run:
  "\<exists>w'. uploadToDrive mem_srv decimal_ops archive_path archive_name ''root''
            (upload_world ''abcdefgh'' ''4b'' []) = Some (Inr ''id0'', w')
       \<and> trace w' =
           [Created ''v_2025-01-01T00:00:00Z.tar.part001'' [''root''] ''abcd'' None (Inr ''id0''),
            Created ''v_2025-01-01T00:00:00Z.tar.part002'' [''root''] ''efgh'' None (Inr ''id1'')]"
  using upload_eval_ok
  by (cases "uploadToDrive mem_srv decimal_ops archive_path archive_name ''root''
               (upload_world ''abcdefgh'' ''4b'' [])") auto

lemma upload_fail_run:
  "\<exists>w'. uploadToDrive mem_srv decimal_ops archive_path archive_name ''root''
            (upload_world ''abcdefgh'' ''4b'' [''v_2025-01-01T00:00:00Z.tar.part002''])
          = Some (Inl (UploadError ''v_2025-01-01T00:00:00Z.tar.part002'' ''quota exceeded''), w')
       \<and> trace w' =
           [Created ''v_2025-01-01T00:00:00Z.tar.part001'' [''root''] ''abcd'' None (Inr ''id0''),
            Created ''v_2025-01-01T00:00:00Z.tar.part002'' [''root''] ''efgh'' None
              (Inl ''quota exceeded'')]"
  using upload_eval_fail
  by (cases "uploadToDrive mem_srv decimal_ops archive_path archive_name ''root''
               (upload_world ''abcdefgh'' ''4b'' [''v_2025-01-01T00:00:00Z.tar.part002''])") auto

lemmas readers_eval = created_names_def created_ids_def failed_creates_def deleted_ids_def

subsection \<open>The runs as instances of the claims\<close>

text \<open>A successful run on two parts returns \<open>id0\<close>; the list is in the log.\<close>

theorem upload_returns_first_id_witness:
  "\<exists>w'. uploadToDrive mem_srv decimal_ops archive_path archive_name ''root''
            (upload_world ''abcdefgh'' ''4b'' []) = Some (Inr ''id0'', w')
       \<and> ''id0'' = hd (created_ids (new_events (upload_world ''abcdefgh'' ''4b'' []) w'))
       \<and> failed_creates (new_events (upload_world ''abcdefgh'' ''4b'' []) w') = []
       \<and> created_ids (new_events (upload_world ''abcdefgh'' ''4b'' []) w') = [''id0'', ''id1'']
       \<and> last (logs w') = UploadedChunks 2 [''id0'', ''id1'']"
proof -
  let ?w = "upload_world ''abcdefgh'' ''4b'' []"
  from upload_ok_run obtain w' where
    run: "uploadToDrive mem_srv decimal_ops archive_path archive_name ''root'' ?w = Some (Inr ''id0'', w')"
    and t: "trace w' =
           [Created ''v_2025-01-01T00:00:00Z.tar.part001'' [''root''] ''abcd'' None (Inr ''id0''),
            Created ''v_2025-01-01T00:00:00Z.tar.part002'' [''root''] ''efgh'' None (Inr ''id1'')]"
    by blast
  have ids: "created_ids (new_events ?w w') = [''id0'', ''id1'']"
    by (simp add: new_events_fresh upload_world_trace t readers_eval)
  from upload_returns_first_id[OF run] have
    a: "''id0'' = hd (created_ids (new_events ?w w'))"
    and b: "failed_creates (new_events ?w w') = []"
    and c: "2 \<le> length (created_ids (new_events ?w w'))
            \<longrightarrow> last (logs w') = UploadedChunks (length (created_ids (new_events ?w w')))
                                  (created_ids (new_events ?w w'))"
    by simp_all
  have d: "last (logs w') = UploadedChunks 2 [''id0'', ''id1'']" using c unfolding ids by simp
  show ?thesis using run a b ids d by blast
qed

text \<open>Claim C1 as stated fails on two parts: the create calls returned \<open>id0\<close> and
  \<open>id1\<close>, and the run returns the single string \<open>id0\<close>.\<close>

theorem upload_returns_list_counterexample:
  "fst (the (uploadToDrive mem_srv decimal_ops archive_path archive_name ''root''
               (upload_world ''abcdefgh'' ''4b'' []))) = Inr ''id0''
   \<and> created_ids (new_events (upload_world ''abcdefgh'' ''4b'' [])
        (snd (the (uploadToDrive mem_srv decimal_ops archive_path archive_name ''root''
                     (upload_world ''abcdefgh'' ''4b'' []))))) = [''id0'', ''id1'']"
proof -
  from upload_ok_run obtain w' where
    run: "uploadToDrive mem_srv decimal_ops archive_path archive_name ''root''
            (upload_world ''abcdefgh'' ''4b'' []) = Some (Inr ''id0'', w')"
    and t: "trace w' =
           [Created ''v_2025-01-01T00:00:00Z.tar.part001'' [''root''] ''abcd'' None (Inr ''id0''),
            Created ''v_2025-01-01T00:00:00Z.tar.part002'' [''root''] ''efgh'' None (Inr ''id1'')]"
    by blast
  show ?thesis
    unfolding run by (simp add: new_events_fresh upload_world_trace t readers_eval)
qed

text \<open>The Drive refuses the second part: the first stays created, nothing is deleted.\<close>

theorem upload_failure_stops_witness:
  "\<exists>w'. uploadToDrive mem_srv decimal_ops archive_path archive_name ''root''
            (upload_world ''abcdefgh'' ''4b'' [''v_2025-01-01T00:00:00Z.tar.part002''])
          = Some (Inl (UploadError ''v_2025-01-01T00:00:00Z.tar.part002'' ''quota exceeded''), w')
       \<and> (''v_2025-01-01T00:00:00Z.tar.part002'', ''quota exceeded'')
           \<in> set (failed_creates (new_events
                 (upload_world ''abcdefgh'' ''4b'' [''v_2025-01-01T00:00:00Z.tar.part002'']) w'))
       \<and> created_ids (new_events
             (upload_world ''abcdefgh'' ''4b'' [''v_2025-01-01T00:00:00Z.tar.part002'']) w') = [''id0'']
       \<and> deleted_ids (new_events
             (upload_world ''abcdefgh'' ''4b'' [''v_2025-01-01T00:00:00Z.tar.part002'']) w') = []"
proof -
  let ?w = "upload_world ''abcdefgh'' ''4b'' [''v_2025-01-01T00:00:00Z.tar.part002'']"
  from upload_fail_run obtain w' where
    run: "uploadToDrive mem_srv decimal_ops archive_path archive_name ''root'' ?w
          = Some (Inl (UploadError ''v_2025-01-01T00:00:00Z.tar.part002'' ''quota exceeded''), w')"
    and t: "trace w' =
           [Created ''v_2025-01-01T00:00:00Z.tar.part001'' [''root''] ''abcd'' None (Inr ''id0''),
            Created ''v_2025-01-01T00:00:00Z.tar.part002'' [''root''] ''efgh'' None
              (Inl ''quota exceeded'')]"
    by blast
  have f: "(''v_2025-01-01T00:00:00Z.tar.part002'', ''quota exceeded'')
           \<in> set (failed_creates (new_events ?w w'))"
    by (simp add: new_events_fresh upload_world_trace t readers_eval)
  have ids: "created_ids (new_events ?w w') = [''id0'']"
    by (simp add: new_events_fresh upload_world_trace t readers_eval)
  from upload_failure_stops[OF run f] have d: "deleted_ids (new_events ?w w') = []" by simp
  show ?thesis using run f ids d by blast
qed

lemma parse_split_env:
  "parseSizeString decimal_ops (os_Getenv (upload_world content ''4b'' rf) ''UPLOAD_SPLIT_SIZE'') = Inr 4"
  by (simp add: os_Getenv_def upload_world_def parse_4b)

lemma archive_name_parts: "archive_name = ''v'' @ ''_'' @ ''2025-01-01T00:00:00Z'' @ ''.tar.gz''"
  by (simp add: archive_name_def)

text \<open>The second part of the run is named \<open>v_2025-01-01T00:00:00Z.tar.part002\<close>.\<close>

theorem part_names_witness:
  "CHR ''/'' \<notin> set ''v'' \<and> CHR ''/'' \<notin> set ''2025-01-01T00:00:00Z''
   \<and> parseSizeString decimal_ops (os_Getenv (upload_world ''abcdefgh'' ''4b'' []) ''UPLOAD_SPLIT_SIZE'') = Inr 4
   \<and> files (upload_world ''abcdefgh'' ''4b'' []) archive_path = Some ''abcdefgh''
   \<and> 4 < int (length ''abcdefgh'')
   \<and> (\<exists>w'. uploadToDrive mem_srv decimal_ops archive_path
               (''v'' @ ''_'' @ ''2025-01-01T00:00:00Z'' @ ''.tar.gz'') ''root''
               (upload_world ''abcdefgh'' ''4b'' []) = Some (Inr ''id0'', w')
          \<and> length (created_names (new_events (upload_world ''abcdefgh'' ''4b'' []) w')) = 2
          \<and> created_names (new_events (upload_world ''abcdefgh'' ''4b'' []) w') ! 1
              = ''v'' @ ''_'' @ ''2025-01-01T00:00:00Z'' @ ''.tar.part'' @ pad3 (Suc 1))"
proof -
  let ?w = "upload_world ''abcdefgh'' ''4b'' []"
  have h1: "CHR ''/'' \<notin> set ''v''" and h2: "CHR ''/'' \<notin> set ''2025-01-01T00:00:00Z''" by simp_all
  have h4: "files ?w archive_path = Some ''abcdefgh''" by (simp add: upload_world_def)
  have h5: "4 < int (length ''abcdefgh'')" by simp
  from upload_ok_run obtain w' where
    run: "uploadToDrive mem_srv decimal_ops archive_path
            (''v'' @ ''_'' @ ''2025-01-01T00:00:00Z'' @ ''.tar.gz'') ''root'' ?w = Some (Inr ''id0'', w')"
    and t: "trace w' =
           [Created ''v_2025-01-01T00:00:00Z.tar.part001'' [''root''] ''abcd'' None (Inr ''id0''),
            Created ''v_2025-01-01T00:00:00Z.tar.part002'' [''root''] ''efgh'' None (Inr ''id1'')]"
    unfolding archive_name_parts by blast
  have l: "length (created_names (new_events ?w w')) = 2"
    by (simp add: new_events_fresh upload_world_trace t readers_eval)
  from part_names[OF h1 h2 parse_split_env h4 h5 run] l
  have "created_names (new_events ?w w') ! 1
              = ''v'' @ ''_'' @ ''2025-01-01T00:00:00Z'' @ ''.tar.part'' @ pad3 (Suc 1)"
    by simp
  then show ?thesis using h1 h2 parse_split_env h4 h5 run l by blast
qed

text \<open>Claim C2 as stated fails: the parts of \<open>v_2025-01-01T00:00:00Z.tar.gz\<close> are uploaded
  as \<open>v_2025-01-01T00:00:00Z.tar.part001\<close> and \<open>...part002\<close>, without \<open>.gz\<close>.\<close>

theorem part_names_counterexample:
  "parseSizeString decimal_ops (os_Getenv (upload_world ''abcdefgh'' ''4b'' []) ''UPLOAD_SPLIT_SIZE'') = Inr 4
   \<and> files (upload_world ''abcdefgh'' ''4b'' []) archive_path = Some ''abcdefgh''
   \<and> archive_name = ''v_2025-01-01T00:00:00Z.tar.gz''
   \<and> created_names (new_events (upload_world ''abcdefgh'' ''4b'' [])
        (snd (the (uploadToDrive mem_srv decimal_ops archive_path archive_name ''root''
                     (upload_world ''abcdefgh'' ''4b'' [])))))
       = [''v_2025-01-01T00:00:00Z.tar.part001'', ''v_2025-01-01T00:00:00Z.tar.part002'']
   \<and> ''v_2025-01-01T00:00:00Z.tar.part001'' \<noteq> ''v_2025-01-01T00:00:00Z.tar.gz.part001''"
proof -
  from upload_ok_run obtain w' where
    run: "uploadToDrive mem_srv decimal_ops archive_path archive_name ''root''
            (upload_world ''abcdefgh'' ''4b'' []) = Some (Inr ''id0'', w')"
    and t: "trace w' =
           [Created ''v_2025-01-01T00:00:00Z.tar.part001'' [''root''] ''abcd'' None (Inr ''id0''),
            Created ''v_2025-01-01T00:00:00Z.tar.part002'' [''root''] ''efgh'' None (Inr ''id1'')]"
    by blast
  have f: "files (upload_world ''abcdefgh'' ''4b'' []) archive_path = Some ''abcdefgh''"
    by (simp add: upload_world_def)
  have n: "created_names (new_events (upload_world ''abcdefgh'' ''4b'' [])
        (snd (the (uploadToDrive mem_srv decimal_ops archive_path archive_name ''root''
                     (upload_world ''abcdefgh'' ''4b'' [])))))
       = [''v_2025-01-01T00:00:00Z.tar.part001'', ''v_2025-01-01T00:00:00Z.tar.part002'']"
    unfolding run by (simp add: new_events_fresh upload_world_trace t readers_eval)
  show ?thesis using parse_split_env f n by (simp add: archive_name_def)
qed

end
